theory Spec2Isabelle
  imports Main "HOL-Library.Signed_Division"
begin

section \<open>The habit ledger of kinkiku-card\<close>

text \<open>
  The ledger lives in \<^verbatim>\<open>src/index.tsx\<close> (\<^verbatim>\<open>addDays\<close>, \<^verbatim>\<open>ensureBaseUsers\<close>,
  \<^verbatim>\<open>upsertWorkout\<close>, \<^verbatim>\<open>useSkip\<close>) over the three tables of
  \<^verbatim>\<open>migrations/0001_init.sql\<close>. Each table is a map from its primary key to the other
  columns of the row. The SQL statements the functions issue are modelled one by one,
  with the constraints of the schema that can make a statement throw.

  Integer columns are \<open>int\<close>. The program reads them into JavaScript numbers, on which
  \<open>+ 1\<close> and \<open>- 1\<close> are exact below \<open>2 ^ 53\<close>; the counters of the ledger move by one per
  recorded day, and the model does not describe stores whose counters are beyond that.
\<close>

subsection \<open>Calendar arithmetic of the built-in Date\<close>

text \<open>
  \<^verbatim>\<open>addDays\<close> goes through \<^verbatim>\<open>Date.UTC\<close>, \<^verbatim>\<open>setUTCDate\<close> and the
  \<^verbatim>\<open>getUTC...\<close> readers. The definitions below follow the abstract operations of
  ECMA-262 (Day, TimeWithinDay, DayFromYear, InLeapYear, YearFromTime, MonthFromTime,
  DateFromTime, MakeDay, MakeDate, TimeClip) on integers. A time value is \<open>int option\<close>,
  milliseconds since the epoch, \<open>None\<close> being NaN (an invalid Date).
\<close>

definition msPerDay :: int where
  "msPerDay = 86400000"

definition Day :: "int \<Rightarrow> int" where
  "Day t = t div msPerDay"

definition TimeWithinDay :: "int \<Rightarrow> int" where
  "TimeWithinDay t = t mod msPerDay"

definition DayFromYear :: "int \<Rightarrow> int" where
  "DayFromYear y =
     365 * (y - 1970) + (y - 1969) div 4 - (y - 1901) div 100 + (y - 1601) div 400"

definition InLeapYear :: "int \<Rightarrow> bool" where
  "InLeapYear y =
     (if y mod 4 \<noteq> 0 then False
      else if y mod 100 \<noteq> 0 then True
      else if y mod 400 \<noteq> 0 then False
      else True)"

text \<open>
  YearFromTime is the largest year whose first day is not after the given day. The
  mean year has \<open>146097 / 400\<close> days, which places the year within one of the estimate;
  the three candidates are tried from the largest.
\<close>

definition YearFromDay :: "int \<Rightarrow> int" where
  "YearFromDay k =
     (let ye = 1970 + (400 * k) div 146097
      in if DayFromYear (ye + 1) \<le> k then ye + 1
         else if DayFromYear ye \<le> k then ye
         else ye - 1)"

text \<open>The day within the year on which month \<open>m\<close> (0 to 11) starts.\<close>

definition monthStart :: "bool \<Rightarrow> int \<Rightarrow> int" where
  "monthStart leap m =
     (let l = (if leap then 1 else 0)
      in if m = 0 then 0
         else if m = 1 then 31
         else if m = 2 then 59 + l
         else if m = 3 then 90 + l
         else if m = 4 then 120 + l
         else if m = 5 then 151 + l
         else if m = 6 then 181 + l
         else if m = 7 then 212 + l
         else if m = 8 then 243 + l
         else if m = 9 then 273 + l
         else if m = 10 then 304 + l
         else 334 + l)"

definition DayWithinYear :: "int \<Rightarrow> int" where
  "DayWithinYear k = k - DayFromYear (YearFromDay k)"

definition MonthFromDay :: "int \<Rightarrow> int" where
  "MonthFromDay k =
     (let leap = InLeapYear (YearFromDay k);
          l = (if leap then 1 else 0);
          d = DayWithinYear k
      in if d < 31 then 0
         else if d < 59 + l then 1
         else if d < 90 + l then 2
         else if d < 120 + l then 3
         else if d < 151 + l then 4
         else if d < 181 + l then 5
         else if d < 212 + l then 6
         else if d < 243 + l then 7
         else if d < 273 + l then 8
         else if d < 304 + l then 9
         else if d < 334 + l then 10
         else 11)"

definition DateFromDay :: "int \<Rightarrow> int" where
  "DateFromDay k =
     DayWithinYear k - monthStart (InLeapYear (YearFromDay k)) (MonthFromDay k) + 1"

definition MakeDay :: "int \<Rightarrow> int \<Rightarrow> int \<Rightarrow> int" where
  "MakeDay year month dt =
     (let ym = year + month div 12;
          mn = month mod 12
      in DayFromYear ym + monthStart (InLeapYear ym) mn + dt - 1)"

definition MakeDate :: "int \<Rightarrow> int \<Rightarrow> int" where
  "MakeDate day time = day * msPerDay + time"

definition TimeClip :: "int \<Rightarrow> int option" where
  "TimeClip t = (if \<bar>t\<bar> > 8640000000000000 then None else Some t)"

text \<open>
  \<^verbatim>\<open>Date.UTC(y, m - 1, d, 12, 0, 0)\<close>: a NaN argument gives NaN, a year from 0 to 99
  means 1900 + year, and the time of day is noon.
\<close>

definition dateUTC :: "int option \<Rightarrow> int option \<Rightarrow> int option \<Rightarrow> int option" where
  "dateUTC y m d =
     (case (y, m, d) of
        (Some yv, Some mv, Some dv) \<Rightarrow>
          (let yr = (if 0 \<le> yv \<and> yv \<le> 99 then 1900 + yv else yv)
           in TimeClip (MakeDate (MakeDay yr mv dv) (12 * 3600000)))
      | _ \<Rightarrow> None)"

definition getUTCFullYear :: "int option \<Rightarrow> int option" where
  "getUTCFullYear tv = map_option (\<lambda>t. YearFromDay (Day t)) tv"

definition getUTCMonth :: "int option \<Rightarrow> int option" where
  "getUTCMonth tv = map_option (\<lambda>t. MonthFromDay (Day t)) tv"

definition getUTCDate :: "int option \<Rightarrow> int option" where
  "getUTCDate tv = map_option (\<lambda>t. DateFromDay (Day t)) tv"

definition setUTCDate :: "int option \<Rightarrow> int option \<Rightarrow> int option" where
  "setUTCDate tv dt =
     (case (tv, dt) of
        (Some t, Some dv) \<Rightarrow>
          TimeClip (MakeDate (MakeDay (YearFromDay (Day t)) (MonthFromDay (Day t)) dv)
                             (TimeWithinDay t))
      | _ \<Rightarrow> None)"

subsection \<open>Strings of a date key\<close>

text \<open>
  \<^verbatim>\<open>ymd.split('-')\<close>: the pieces between the separators; a string without separator
  is one piece, and an empty string is one empty piece.
\<close>

fun split :: "char \<Rightarrow> string \<Rightarrow> string list" where
  "split c [] = [[]]"
| "split c (x # xs) =
     (if x = c then [] # split c xs
      else (case split c xs of
              [] \<Rightarrow> [[x]]
            | w # ws \<Rightarrow> (x # w) # ws))"

definition digitValue :: "char \<Rightarrow> int option" where
  "digitValue c = map_of (zip ''0123456789'' [0, 1, 2, 3, 4, 5, 6, 7, 8, 9]) c"

fun digitsValue :: "int \<Rightarrow> string \<Rightarrow> int option" where
  "digitsValue acc [] = Some acc"
| "digitsValue acc (c # cs) =
     (case digitValue c of
        None \<Rightarrow> None
      | Some v \<Rightarrow> digitsValue (10 * acc + v) cs)"

text \<open>
  \<^verbatim>\<open>Number(s)\<close> on a field of a date key: a run of decimal digits is its value and the
  empty string is 0. The fields of a date key are such runs; the other notations that
  \<^verbatim>\<open>Number\<close> reads (sign, fraction, exponent, radix prefix, white space around) are
  outside the model, which gives NaN there as for a string that is no number at all.
\<close>

definition Number :: "string \<Rightarrow> int option" where
  "Number s = digitsValue 0 s"

text \<open>An array element read by destructuring: \<^verbatim>\<open>undefined\<close>, NaN in arithmetic, when missing.\<close>

definition element :: "int option list \<Rightarrow> nat \<Rightarrow> int option" where
  "element xs i = (if i < length xs then xs ! i else None)"

text \<open>The decimal digits of a natural number; \<open>digitChar n\<close> is the last digit of \<open>n\<close>.\<close>

definition digitChar :: "nat \<Rightarrow> char" where
  "digitChar n = ''0123456789'' ! (n mod 10)"

fun showNat :: "nat \<Rightarrow> string" where
  "showNat n = (if n < 10 then [digitChar n] else showNat (n div 10) @ [digitChar n])"

declare showNat.simps [simp del]

text \<open>
  \<^verbatim>\<open>String(n)\<close> of an integer, and of NaN. The integers it meets here are the year,
  month and day of a valid Date, far below the size at which JavaScript switches to
  exponent notation.
\<close>

definition String :: "int option \<Rightarrow> string" where
  "String v =
     (case v of
        None \<Rightarrow> ''NaN''
      | Some n \<Rightarrow> (if n < 0 then CHR ''-'' # showNat (nat (- n)) else showNat (nat n)))"

definition padStart2 :: "string \<Rightarrow> string" where
  "padStart2 s = (if length s < 2 then replicate (2 - length s) CHR ''0'' @ s else s)"

definition addDays :: "string \<Rightarrow> int \<Rightarrow> string" where
  "addDays ymd delta =
     (let fs = map Number (split CHR ''-'' ymd);
          y = element fs 0;
          m = element fs 1;
          d = element fs 2;
          dt = dateUTC y (map_option (\<lambda>v. v - 1) m) d;
          dt = setUTCDate dt (map_option (\<lambda>v. v + delta) (getUTCDate dt));
          yy = getUTCFullYear dt;
          mm = padStart2 (String (map_option (\<lambda>v. v + 1) (getUTCMonth dt)));
          dd = padStart2 (String (getUTCDate dt))
      in String yy @ ''-'' @ mm @ ''-'' @ dd)"

text \<open>
  The date keys the routes pass come from \<^verbatim>\<open>jstYmd\<close>, which joins the year, month
  and day of the formatter with \<^verbatim>\<open>-\<close>: three non-empty runs of decimal digits.
  \<open>ymdKey\<close> is that shape; on it \<open>Number\<close> above is exact.
\<close>

definition ymdKey :: "string \<Rightarrow> bool" where
  "ymdKey s =
     (case split CHR ''-'' s of
        [y, m, d] \<Rightarrow>
          y \<noteq> [] \<and> m \<noteq> [] \<and> d \<noteq> []
          \<and> Number y \<noteq> None \<and> Number m \<noteq> None \<and> Number d \<noteq> None
      | _ \<Rightarrow> False)"

text \<open>What \<open>addDays\<close> returns for the Date it has built, as one function of the time value.\<close>

definition showDay :: "int option \<Rightarrow> string" where
  "showDay dt =
     String (getUTCFullYear dt) @ ''-''
       @ padStart2 (String (map_option (\<lambda>v. v + 1) (getUTCMonth dt))) @ ''-''
       @ padStart2 (String (getUTCDate dt))"

subsection \<open>The civil calendar\<close>

text \<open>
  The calendar as the specification speaks of it (a calendar date, its previous day,
  its key), written down on its own: nothing here is taken from \<^verbatim>\<open>addDays\<close> or
  from the Date arithmetic above, against which it is compared below.
\<close>

text \<open>A leap year: every fourth year, except the centuries that are not a multiple of 400.\<close>

definition civilLeapYear :: "int \<Rightarrow> bool" where
  "civilLeapYear y \<longleftrightarrow> y mod 4 = 0 \<and> (y mod 100 \<noteq> 0 \<or> y mod 400 = 0)"

definition civilDaysInMonth :: "int \<Rightarrow> int \<Rightarrow> int" where
  "civilDaysInMonth y m =
     (if m = 2 then (if civilLeapYear y then 29 else 28)
      else if m = 4 \<or> m = 6 \<or> m = 9 \<or> m = 11 then 30
      else 31)"

text \<open>A date of the calendar, as (year, month, day).\<close>

definition civilDate :: "int \<times> int \<times> int \<Rightarrow> bool" where
  "civilDate = (\<lambda>(y, m, d). 1 \<le> m \<and> m \<le> 12 \<and> 1 \<le> d \<and> d \<le> civilDaysInMonth y m)"

text \<open>The day before: the last day of the month before on a first, 31 December on 1 January.\<close>

definition previousCivilDay :: "int \<times> int \<times> int \<Rightarrow> int \<times> int \<times> int" where
  "previousCivilDay = (\<lambda>(y, m, d).
     if 1 < d then (y, m, d - 1)
     else if 1 < m then (y, m - 1, civilDaysInMonth y (m - 1))
     else (y - 1, 12, 31))"

text \<open>
  The key of a date, \<^verbatim>\<open>YYYY-MM-DD\<close>: the year in decimal, then month and day in two
  digits each. From the year 1000 on the year has its four digits without a leading
  zero.
\<close>

definition twoDigits :: "nat \<Rightarrow> string" where
  "twoDigits n = [digitChar (n div 10), digitChar n]"

definition civilKey :: "int \<times> int \<times> int \<Rightarrow> string" where
  "civilKey = (\<lambda>(y, m, d).
     showNat (nat y) @ ''-'' @ twoDigits (nat m) @ ''-'' @ twoDigits (nat d))"


subsection \<open>The store\<close>

datatype Status = Workout | Skip

record day_row =
  status :: Status
  created_at :: int

record state_row =
  skip_points :: int
  consec_workout :: int
  updated_at :: int

record store =
  users :: "string \<rightharpoonup> string"
  days :: "string \<times> string \<rightharpoonup> day_row"
  user_state :: "string \<rightharpoonup> state_row"

definition emptyStore :: store where
  "emptyStore = \<lparr>users = Map.empty, days = Map.empty, user_state = Map.empty\<rparr>"

text \<open>
  A statement that violates a constraint of the schema throws. The statements of the
  ledger can meet two: the primary key of \<^verbatim>\<open>days\<close> and the foreign keys into
  \<^verbatim>\<open>users\<close>.
\<close>

datatype d1_error = PrimaryKeyViolation | ForeignKeyViolation

text \<open>\<^verbatim>\<open>SELECT status FROM days WHERE user_id=? AND date=?\<close>, first row.\<close>

definition selectDay :: "store \<Rightarrow> string \<Rightarrow> string \<Rightarrow> day_row option" where
  "selectDay db userId date = days db (userId, date)"

text \<open>\<^verbatim>\<open>SELECT skip_points, consec_workout FROM user_state WHERE user_id=?\<close>, first row.\<close>

definition selectState :: "store \<Rightarrow> string \<Rightarrow> state_row option" where
  "selectState db userId = user_state db userId"

text \<open>\<^verbatim>\<open>INSERT INTO days (user_id, date, status, created_at) VALUES (?,?,?,?)\<close>.\<close>

definition insertDay ::
  "store \<Rightarrow> string \<Rightarrow> string \<Rightarrow> Status \<Rightarrow> int \<Rightarrow> d1_error + store" where
  "insertDay db userId date st now =
     (if days db (userId, date) \<noteq> None then Inl PrimaryKeyViolation
      else if users db userId = None then Inl ForeignKeyViolation
      else Inr (db\<lparr>days := (days db)((userId, date) \<mapsto> \<lparr>status = st, created_at = now\<rparr>)\<rparr>))"

text \<open>
  \<^verbatim>\<open>UPDATE user_state SET skip_points=?, consec_workout=?, updated_at=? WHERE user_id=?\<close>:
  no row, no change.
\<close>

definition updateState :: "store \<Rightarrow> string \<Rightarrow> int \<Rightarrow> int \<Rightarrow> int \<Rightarrow> store" where
  "updateState db userId skip consec now =
     (case user_state db userId of
        None \<Rightarrow> db
      | Some old \<Rightarrow>
          db\<lparr>user_state := (user_state db)(userId \<mapsto>
                \<lparr>skip_points = skip, consec_workout = consec, updated_at = now\<rparr>)\<rparr>)"

text \<open>\<^verbatim>\<open>INSERT OR IGNORE INTO users (id, display_name) VALUES (?, ?)\<close>.\<close>

definition insertOrIgnoreUser :: "store \<Rightarrow> string \<Rightarrow> string \<Rightarrow> store" where
  "insertOrIgnoreUser db uid name =
     (if users db uid \<noteq> None then db else db\<lparr>users := (users db)(uid \<mapsto> name)\<rparr>)"

text \<open>
  \<^verbatim>\<open>INSERT OR IGNORE INTO user_state (...) VALUES (?, 2, 0, ?)\<close>. The conflict clause
  ignores a clash on the primary key, not a missing parent row.
\<close>

definition insertOrIgnoreState :: "store \<Rightarrow> string \<Rightarrow> int \<Rightarrow> d1_error + store" where
  "insertOrIgnoreState db uid now =
     (if user_state db uid \<noteq> None then Inr db
      else if users db uid = None then Inl ForeignKeyViolation
      else Inr (db\<lparr>user_state := (user_state db)(uid \<mapsto>
                  \<lparr>skip_points = 2, consec_workout = 0, updated_at = now\<rparr>)\<rparr>))"

text \<open>Statements in sequence: a statement that throws ends the sequence.\<close>

definition andThen :: "d1_error + store \<Rightarrow> (store \<Rightarrow> d1_error + store) \<Rightarrow> d1_error + store" where
  "andThen r f = (case r of Inl e \<Rightarrow> Inl e | Inr db \<Rightarrow> f db)"

subsection \<open>The three operations\<close>

record names =
  user1 :: string
  user2 :: string

text \<open>
  \<^verbatim>\<open>ensureBaseUsers\<close>: one batch of four statements with one timestamp. The batch is a
  transaction, so a statement that throws leaves the store as it was.
\<close>

definition ensureBaseUsers :: "store \<Rightarrow> names \<Rightarrow> int \<Rightarrow> d1_error + store" where
  "ensureBaseUsers db ns now =
     andThen (Inr (insertOrIgnoreUser db ''user1'' (user1 ns))) (\<lambda>db.
     andThen (Inr (insertOrIgnoreUser db ''user2'' (user2 ns))) (\<lambda>db.
     andThen (insertOrIgnoreState db ''user1'' now) (\<lambda>db.
     insertOrIgnoreState db ''user2'' now)))"

text \<open>
  \<^verbatim>\<open>upsertWorkout\<close> and \<^verbatim>\<open>useSkip\<close> read \<^verbatim>\<open>Date.now()\<close> once for the insert and
  once for the update; the two readings are the arguments \<open>now1\<close> and \<open>now2\<close>. In both
  the only statement that can throw is the insert, which is the first write, so a
  result \<open>Inl\<close> stands for a store that is as it was before the call.
\<close>

definition upsertWorkout ::
  "store \<Rightarrow> string \<Rightarrow> string \<Rightarrow> int \<Rightarrow> int \<Rightarrow> d1_error + store" where
  "upsertWorkout db userId date now1 now2 =
     (case selectDay db userId date of
        Some ex \<Rightarrow> Inr db
      | None \<Rightarrow>
          andThen (insertDay db userId date Workout now1) (\<lambda>db.
            (case selectState db userId of
               None \<Rightarrow> Inr db
             | Some st \<Rightarrow>
                 (let y = addDays date (- 1);
                      ys = selectDay db userId y;
                      consec = (if map_option status ys = Some Workout
                                then consec_workout st + 1 else 1);
                      skip = skip_points st;
                      skip = (if consec smod 2 = 0 \<and> skip < 2 then skip + 1 else skip)
                  in Inr (updateState db userId skip consec now2)))))"

definition useSkip ::
  "store \<Rightarrow> string \<Rightarrow> string \<Rightarrow> int \<Rightarrow> int \<Rightarrow> d1_error + store" where
  "useSkip db userId date now1 now2 =
     (case selectState db userId of
        None \<Rightarrow> Inr db
      | Some st \<Rightarrow>
          if skip_points st \<le> 0 then Inr db
          else
            (case selectDay db userId date of
               Some ex \<Rightarrow> Inr db
             | None \<Rightarrow>
                 andThen (insertDay db userId date Skip now1) (\<lambda>db.
                   Inr (updateState db userId (skip_points st - 1) 0 now2))))"

subsection \<open>Requests in sequence\<close>

text \<open>
  The two counters of a user, \<open>(skip_points, consec_workout)\<close>, without the timestamp.
\<close>

definition counters :: "store \<Rightarrow> string \<Rightarrow> (int \<times> int) option" where
  "counters db u = map_option (\<lambda>s. (skip_points s, consec_workout s)) (user_state db u)"

text \<open>
  The store after a call: the returned store, or the store as it was when the call
  threw (see the remark before \<open>upsertWorkout\<close>).
\<close>

definition outcome :: "store \<Rightarrow> d1_error + store \<Rightarrow> store" where
  "outcome db r = (case r of Inl e \<Rightarrow> db | Inr db' \<Rightarrow> db')"

datatype request =
    RecordWorkout string string int int
  | RecordSkip string string int int
  | EnsureUsers names int

fun serve :: "store \<Rightarrow> request \<Rightarrow> store" where
  "serve db (RecordWorkout u d n1 n2) = outcome db (upsertWorkout db u d n1 n2)"
| "serve db (RecordSkip u d n1 n2) = outcome db (useSkip db u d n1 n2)"
| "serve db (EnsureUsers ns now) = outcome db (ensureBaseUsers db ns now)"

definition serveAll :: "store \<Rightarrow> request list \<Rightarrow> store" where
  "serveAll db rqs = foldl serve db rqs"

text \<open>The invariant of the skip budget, over every row of \<^verbatim>\<open>user_state\<close>.\<close>

definition budgetOk :: "store \<Rightarrow> bool" where
  "budgetOk db \<longleftrightarrow>
     (\<forall>u st. user_state db u = Some st \<longrightarrow> 0 \<le> skip_points st \<and> skip_points st \<le> 2)"

subsection \<open>Stores for the concrete checks\<close>

definition sampleStore :: store where
  "sampleStore =
     \<lparr>users = [''user1'' \<mapsto> ''A'', ''user2'' \<mapsto> ''B''],
      days = [(''user1'', ''2024-02-29'') \<mapsto> \<lparr>status = Workout, created_at = 5\<rparr>],
      user_state = [''user1'' \<mapsto> \<lparr>skip_points = 0, consec_workout = 1, updated_at = 5\<rparr>,
                    ''user2'' \<mapsto> \<lparr>skip_points = 1, consec_workout = 3, updated_at = 6\<rparr>]\<rparr>"

text \<open>A store in which \<open>user1\<close> has no state row and \<open>user2\<close> has no skip point left.\<close>

definition noStateStore :: store where
  "noStateStore =
     \<lparr>users = [''user1'' \<mapsto> ''A'', ''user2'' \<mapsto> ''B''],
      days = Map.empty,
      user_state = [''user2'' \<mapsto> \<lparr>skip_points = 0, consec_workout = 4, updated_at = 6\<rparr>]\<rparr>"

definition sampleNames :: names where
  "sampleNames = \<lparr>user1 = ''A'', user2 = ''B''\<rparr>"

section \<open>Properties\<close>

subsection \<open>The previous day of a date key\<close>

text \<open>
  \<open>YearFromDay\<close> meets the specification of YearFromTime, and \<open>MakeDay\<close> undoes the
  three readers; so \<open>setUTCDate\<close> moves the day number by \<open>delta\<close>, and the key that
  \<open>addDays\<close> returns for the previous day is never the key it was given.
\<close>

lemma Day_noon: "Day (MakeDate k 43200000) = k"
  by (simp add: Day_def MakeDate_def msPerDay_def)

lemma TimeWithinDay_noon: "TimeWithinDay (MakeDate k 43200000) = 43200000"
  by (simp add: TimeWithinDay_def MakeDate_def msPerDay_def)

lemma MonthFromDay_range: "0 \<le> MonthFromDay k \<and> MonthFromDay k \<le> 11"
  by (simp add: MonthFromDay_def Let_def)

lemma MakeDay_inverse:
  "MakeDay (YearFromDay k) (MonthFromDay k) (DateFromDay k + delta) = k + delta"
proof -
  have "MonthFromDay k div 12 = 0" "MonthFromDay k mod 12 = MonthFromDay k"
    using MonthFromDay_range [of k] by simp_all
  then show ?thesis
    by (simp add: MakeDay_def DateFromDay_def DayWithinYear_def)
qed

lemma div_lower: "0 < b \<Longrightarrow> b * (x div b) \<le> (x::int)"
  using pos_mod_sign [of b x] mult_div_mod_eq [of b x] by linarith

lemma div_upper: "0 < b \<Longrightarrow> (x::int) < b * (x div b) + b"
  using pos_mod_bound [of b x] mult_div_mod_eq [of b x] by linarith

lemma DayFromYear_upper: "400 * DayFromYear y \<le> 146097 * y - 287810501"
proof -
  define a b c where "a = (y - 1969) div 4" and "b = (y - 1901) div 100"
    and "c = (y - 1601) div 400"
  have "4 * a \<le> y - 1969" "y - 1901 < 100 * b + 100" "400 * c \<le> y - 1601"
    unfolding a_def b_def c_def by (simp_all add: div_lower div_upper)
  moreover have "DayFromYear y = 365 * (y - 1970) + a - b + c"
    by (simp add: DayFromYear_def a_def b_def c_def)
  ultimately show ?thesis by (simp add: algebra_simps)
qed

lemma DayFromYear_lower: "146097 * y - 287811681 \<le> 400 * DayFromYear y"
proof -
  define a b c where "a = (y - 1969) div 4" and "b = (y - 1901) div 100"
    and "c = (y - 1601) div 400"
  have "y - 1969 < 4 * a + 4" "100 * b \<le> y - 1901" "y - 1601 < 400 * c + 400"
    unfolding a_def b_def c_def by (simp_all add: div_lower div_upper)
  moreover have "DayFromYear y = 365 * (y - 1970) + a - b + c"
    by (simp add: DayFromYear_def a_def b_def c_def)
  ultimately show ?thesis by (simp add: algebra_simps)
qed

lemma DayFromYear_YearFromDay: "DayFromYear (YearFromDay k) \<le> k"
proof -
  define q where "q = (400 * k) div 146097"
  have "146097 * q \<le> 400 * k"
    unfolding q_def by (simp add: div_lower)
  with DayFromYear_upper [of "1969 + q"] have "DayFromYear (1969 + q) \<le> k"
    by (simp add: algebra_simps)
  then show ?thesis
    by (simp add: YearFromDay_def Let_def q_def)
qed

lemma YearFromDay_next: "k < DayFromYear (YearFromDay k + 1)"
proof -
  define q where "q = (400 * k) div 146097"
  have "400 * k < 146097 * q + 146097"
    unfolding q_def by (simp add: div_upper)
  with DayFromYear_lower [of "1972 + q"] have "k < DayFromYear (1972 + q)"
    by (simp add: algebra_simps)
  then show ?thesis
    by (auto simp add: YearFromDay_def Let_def q_def add.commute)
qed

lemma YearFromDay_lower: "- 25570 \<le> k \<Longrightarrow> 1898 \<le> YearFromDay k"
proof -
  assume k: "- 25570 \<le> k"
  define q where "q = (400 * k) div 146097"
  have "400 * k < 146097 * q + 146097"
    unfolding q_def by (simp add: div_upper)
  with k have "- 71 \<le> q" by (simp add: algebra_simps)
  then show ?thesis
    by (simp add: YearFromDay_def Let_def q_def [symmetric])
qed

lemma DayFromYear_1900: "1900 \<le> y \<Longrightarrow> - 25569 \<le> DayFromYear y"
  using DayFromYear_lower [of y] by (simp add: algebra_simps)


lemma monthStart_MonthFromDay:
  "0 \<le> DayWithinYear k \<Longrightarrow>
     monthStart (InLeapYear (YearFromDay k)) (MonthFromDay k) \<le> DayWithinYear k"
  by (simp add: MonthFromDay_def monthStart_def Let_def)

lemma DateFromDay_pos: "1 \<le> DateFromDay k"
proof -
  have "0 \<le> DayWithinYear k"
    using DayFromYear_YearFromDay [of k] by (simp add: DayWithinYear_def)
  from monthStart_MonthFromDay [OF this] show ?thesis
    by (simp add: DateFromDay_def)
qed

lemma monthStart_nonneg: "0 \<le> monthStart leap m"
  by (simp add: monthStart_def Let_def)


lemma below_ten:
  "(m::nat) < 10 \<Longrightarrow>
     m = 0 \<or> m = 1 \<or> m = 2 \<or> m = 3 \<or> m = 4 \<or> m = 5 \<or> m = 6 \<or> m = 7 \<or> m = 8 \<or> m = 9"
  by (auto simp: eval_nat_numeral less_Suc_eq)

lemma digitValue_digitChar: "digitValue (digitChar n) = Some (int (n mod 10))"
  using below_ten [of "n mod 10"] by (auto simp: digitValue_def digitChar_def)

lemma digitChar_not_dash: "digitChar n \<noteq> CHR ''-''"
  using below_ten [of "n mod 10"] by (auto simp: digitChar_def)

lemma digitsValue_append:
  "digitsValue acc (xs @ ys) =
     (case digitsValue acc xs of None \<Rightarrow> None | Some v \<Rightarrow> digitsValue v ys)"
  by (induction xs arbitrary: acc) (auto split: option.splits)

lemma Number_showNat: "Number (showNat n) = Some (int n)"
  unfolding Number_def
proof (induction n rule: showNat.induct)
  case (1 n)
  show ?case
  proof (cases "n < 10")
    case True
    then show ?thesis
      by (subst showNat.simps) (simp add: digitValue_digitChar)
  next
    case False
    with 1 have "digitsValue 0 (showNat (n div 10)) = Some (int (n div 10))"
      by simp
    with False show ?thesis
      by (subst showNat.simps) (simp add: digitsValue_append digitValue_digitChar zdiv_int zmod_int)
  qed
qed

lemma showNat_no_dash: "CHR ''-'' \<notin> set (showNat n)"
proof (induction n rule: showNat.induct)
  case (1 n)
  then show ?case
    by (subst showNat.simps) (auto simp: digitChar_not_dash dest: sym)
qed

lemma showNat_nonempty: "showNat n \<noteq> []"
  by (subst showNat.simps) simp

lemma Number_padStart2: "Number (padStart2 (showNat n)) = Some (int n)"
proof (cases "length (showNat n) < 2")
  case True
  with showNat_nonempty [of n] have "length (showNat n) = 1"
    by (cases "showNat n") auto
  then have "padStart2 (showNat n) = CHR ''0'' # showNat n"
    by (simp add: padStart2_def)
  with Number_showNat [of n] show ?thesis
    by (simp add: Number_def digitValue_def)
next
  case False
  then show ?thesis by (simp add: padStart2_def Number_showNat)
qed

lemma padStart2_no_dash: "CHR ''-'' \<notin> set (padStart2 (showNat n))"
  using showNat_no_dash [of n] by (auto simp: padStart2_def)

lemma split_field: "c \<notin> set a \<Longrightarrow> split c (a @ c # r) = a # split c r"
  by (induction a) (auto split: list.splits)

lemma split_last: "c \<notin> set a \<Longrightarrow> split c a = [a]"
  by (induction a) (auto split: list.splits)


lemma dateUTC_Some:
  "dateUTC (Some yv) (Some mi) (Some dv) =
     TimeClip (MakeDate (MakeDay (if 0 \<le> yv \<and> yv \<le> 99 then 1900 + yv else yv) mi dv) 43200000)"
  by (simp add: dateUTC_def)

lemma setUTCDate_noon:
  "setUTCDate (Some (MakeDate k 43200000)) (Some (DateFromDay k + delta)) =
     TimeClip (MakeDate (k + delta) 43200000)"
  by (simp add: setUTCDate_def Day_noon TimeWithinDay_noon MakeDay_inverse)

lemma TimeClip_cases: "TimeClip t = None \<or> TimeClip t = Some t"
  by (simp add: TimeClip_def)

lemma showDay_None: "showDay None = ''NaN-NaN-NaN''"
  by (simp add: showDay_def getUTCFullYear_def getUTCMonth_def getUTCDate_def String_def
      padStart2_def)

lemma showDay_Some:
  "showDay (Some (MakeDate k 43200000)) =
     String (Some (YearFromDay k)) @ ''-''
       @ padStart2 (String (Some (MonthFromDay k + 1))) @ ''-''
       @ padStart2 (String (Some (DateFromDay k)))"
  by (simp add: showDay_def getUTCFullYear_def getUTCMonth_def getUTCDate_def Day_noon)

lemma addDays_fields:
  assumes "split CHR ''-'' date = [y, m, d]"
    and "Number y = Some yv" and "Number m = Some mv" and "Number d = Some dv"
  shows "addDays date delta = ''NaN-NaN-NaN''
       \<or> addDays date delta =
           showDay (Some (MakeDate
             (MakeDay (if 0 \<le> yv \<and> yv \<le> 99 then 1900 + yv else yv) (mv - 1) dv + delta)
             43200000))"
proof -
  define k where "k = MakeDay (if 0 \<le> yv \<and> yv \<le> 99 then 1900 + yv else yv) (mv - 1) dv"
  define T where "T = TimeClip (MakeDate k 43200000)"
  have "dateUTC (Some yv) (Some (mv - 1)) (Some dv) = T"
    by (simp only: dateUTC_Some T_def k_def)
  with assms have eq: "addDays date delta =
      showDay (setUTCDate T (map_option (\<lambda>v. v + delta) (getUTCDate T)))"
    by (simp add: addDays_def showDay_def Let_def element_def)
  show ?thesis
  proof (cases T)
    case None
    then show ?thesis
      by (simp add: eq getUTCDate_def setUTCDate_def showDay_None)
  next
    case (Some t)
    with TimeClip_cases [of "MakeDate k 43200000"] have t: "T = Some (MakeDate k 43200000)"
      by (simp add: T_def)
    have "addDays date delta = showDay (TimeClip (MakeDate (k + delta) 43200000))"
      by (simp add: eq t getUTCDate_def Day_noon setUTCDate_noon)
    with TimeClip_cases [of "MakeDate (k + delta) 43200000"] show ?thesis
      by (auto simp: showDay_None k_def)
  qed
qed


lemma MakeDay_lower:
  assumes "1900 \<le> yr" and "0 \<le> mi" and "mi \<le> 11" and "1 \<le> dv"
  shows "- 25569 \<le> MakeDay yr mi dv"
proof -
  from assms have "mi div 12 = 0" "mi mod 12 = mi" by simp_all
  with DayFromYear_1900 [OF assms(1)] monthStart_nonneg [of "InLeapYear yr" mi] assms(4)
  show ?thesis by (simp add: MakeDay_def)
qed

lemma addDays_previous_differs:
  assumes "ymdKey date"
  shows "addDays date (- 1) \<noteq> date"
proof
  assume same: "addDays date (- 1) = date"
  from assms obtain y m d yv mv dv where
    fields: "split CHR ''-'' date = [y, m, d]" and y: "y \<noteq> []"
    and num: "Number y = Some yv" "Number m = Some mv" "Number d = Some dv"
    by (auto simp: ymdKey_def split: list.splits)
  define k where
    "k = MakeDay (if 0 \<le> yv \<and> yv \<le> 99 then 1900 + yv else yv) (mv - 1) dv + (- 1)"
  define Y M D where "Y = YearFromDay k" and "M = MonthFromDay k" and "D = DateFromDay k"
  have M: "0 \<le> M" "M \<le> 11" and D: "1 \<le> D"
    using MonthFromDay_range [of k] DateFromDay_pos [of k] by (simp_all add: M_def D_def)
  define B C where "B = padStart2 (showNat (nat (M + 1)))" and "C = padStart2 (showNat (nat D))"
  have BC: "CHR ''-'' \<notin> set B" "CHR ''-'' \<notin> set C"
    and nB: "Number B = Some (M + 1)" and nC: "Number C = Some D"
    using M D by (simp_all add: B_def C_def padStart2_no_dash Number_padStart2)
  from addDays_fields [OF fields num, of "- 1"] same
  consider "date = ''NaN-NaN-NaN''" | "date = showDay (Some (MakeDate k 43200000))"
    by (auto simp: k_def)
  then show False
  proof cases
    case 1
    with fields have "y = ''NaN''" by simp
    with num show False
      by (simp add: Number_def digitValue_def)
  next
    case 2
    with M D have shape: "date = String (Some Y) @ CHR ''-'' # B @ CHR ''-'' # C"
      by (simp add: showDay_Some String_def Y_def M_def D_def B_def C_def)
    show False
    proof (cases "Y < 0")
      case True
      with shape fields y show False
        by (simp add: String_def)
    next
      case False
      define A where "A = showNat (nat Y)"
      from False have A: "String (Some Y) = A" "CHR ''-'' \<notin> set A" "Number A = Some Y"
        by (simp_all add: String_def A_def showNat_no_dash Number_showNat)
      from shape A BC have "split CHR ''-'' date = [A, B, C]"
        by (simp add: split_field split_last)
      with fields num A nB nC have vals: "yv = Y" "mv = M + 1" "dv = D"
        by simp_all
      show False
      proof (cases "Y \<le> 99")
        case True
        with False vals have "k = MakeDay (1900 + Y) M D - 1"
          by (simp add: k_def)
        moreover from False M D have "- 25569 \<le> MakeDay (1900 + Y) M D"
          by (intro MakeDay_lower) simp_all
        ultimately have "- 25570 \<le> k" by simp
        from YearFromDay_lower [OF this] True show False
          by (simp add: Y_def)
      next
        case False
        with vals have "k = MakeDay Y M D - 1"
          by (simp add: k_def)
        moreover have "MakeDay Y M D = k"
          using MakeDay_inverse [of k 0] by (simp add: Y_def M_def D_def)
        ultimately show False by simp
      qed
    qed
  qed
qed

subsection \<open>\<open>addDays\<close> against the civil calendar\<close>

text \<open>
  For every calendar date from the year 100 to the year 275759 (the last of which a
  Date holds every day), \<open>addDays\<close> of the key of the date and \<open>-1\<close> is the key of the
  previous calendar day. Below the year 100 it is not: \<^verbatim>\<open>Date.UTC\<close> reads a year
  from 0 to 99 as 1900 plus the year.
\<close>

lemma leap_rule:
  "(if \<not> a then False else if \<not> b then True else if \<not> c then False else True)
     \<longleftrightarrow> a \<and> (\<not> b \<or> c)"
  by auto

lemma civilLeapYear_InLeapYear: "InLeapYear y = civilLeapYear y"
  unfolding InLeapYear_def civilLeapYear_def by (rule leap_rule)

lemma div_step:
  fixes x n :: int
  assumes "0 < n"
  shows "(x + 1) div n = x div n + (if x mod n = n - 1 then 1 else 0)"
proof (cases "x mod n = n - 1")
  case True
  have "x + 1 = n * (x div n + 1) + 0"
    using mult_div_mod_eq [of n x] True by (simp add: algebra_simps)
  from int_div_pos_eq [OF this] assms True show ?thesis by simp
next
  case False
  have "x + 1 = n * (x div n) + (x mod n + 1)"
    using mult_div_mod_eq [of n x] by simp
  moreover have "0 \<le> x mod n + 1" "x mod n + 1 < n"
    using pos_mod_sign [OF assms, of x] pos_mod_bound [OF assms, of x] False by simp_all
  ultimately have "(x + 1) div n = x div n"
    by (rule int_div_pos_eq)
  with False show ?thesis by simp
qed

lemma mod_pred:
  fixes y n :: int
  assumes "0 < n"
  shows "(y - 1) mod n = n - 1 \<longleftrightarrow> y mod n = 0"
proof
  assume h: "(y - 1) mod n = n - 1"
  have "y = n * ((y - 1) div n + 1) + 0"
    using mult_div_mod_eq [of n "y - 1"] h by (simp add: algebra_simps)
  from int_mod_pos_eq [OF this] assms show "y mod n = 0" by simp
next
  assume h: "y mod n = 0"
  have "y - 1 = n * (y div n - 1) + (n - 1)"
    using mult_div_mod_eq [of n y] h by (simp add: algebra_simps)
  from int_mod_pos_eq [OF this] assms show "(y - 1) mod n = n - 1" by simp
qed

lemma mod_shift:
  fixes y n c :: int
  assumes "0 < n"
  shows "(y - 1 + c * n) mod n = n - 1 \<longleftrightarrow> y mod n = 0"
  using mod_pred [OF assms, of y] by simp


lemma dvd_100_4: "(y::int) mod 100 = 0 \<Longrightarrow> y mod 4 = 0"
proof -
  assume "y mod 100 = 0"
  then have "100 dvd y" by (simp add: dvd_eq_mod_eq_0)
  moreover have "(4::int) dvd 100" by simp
  ultimately have "4 dvd y" by (rule dvd_trans [rotated])
  then show ?thesis by (simp add: dvd_eq_mod_eq_0)
qed

lemma dvd_400_100: "(y::int) mod 400 = 0 \<Longrightarrow> y mod 100 = 0"
proof -
  assume "y mod 400 = 0"
  then have "400 dvd y" by (simp add: dvd_eq_mod_eq_0)
  moreover have "(100::int) dvd 400" by simp
  ultimately have "100 dvd y" by (rule dvd_trans [rotated])
  then show ?thesis by (simp add: dvd_eq_mod_eq_0)
qed

lemma DayFromYear_step:
  "DayFromYear (y + 1) = DayFromYear y + (if InLeapYear y then 366 else 365)"
proof -
  define a b c where "a = (y - 1969) div 4" and "b = (y - 1901) div 100"
    and "c = (y - 1601) div 400"
  define p q r where "p \<longleftrightarrow> y mod 4 = 0" and "q \<longleftrightarrow> y mod 100 = 0" and "r \<longleftrightarrow> y mod 400 = 0"
  have "(y - 1969) mod 4 = 4 - 1 \<longleftrightarrow> y mod 4 = 0"
    using mod_shift [of 4 y "- 492"] by simp
  with div_step [of 4 "y - 1969"]
  have a': "(y - 1969 + 1) div 4 = a + (if p then 1 else 0)"
    by (simp add: a_def p_def)
  have "(y - 1901) mod 100 = 100 - 1 \<longleftrightarrow> y mod 100 = 0"
    using mod_shift [of 100 y "- 19"] by simp
  with div_step [of 100 "y - 1901"]
  have b': "(y - 1901 + 1) div 100 = b + (if q then 1 else 0)"
    by (simp add: b_def q_def)
  have "(y - 1601) mod 400 = 400 - 1 \<longleftrightarrow> y mod 400 = 0"
    using mod_shift [of 400 y "- 4"] by simp
  with div_step [of 400 "y - 1601"]
  have c': "(y - 1601 + 1) div 400 = c + (if r then 1 else 0)"
    by (simp add: c_def r_def)
  have qp: "q \<Longrightarrow> p" and rq: "r \<Longrightarrow> q"
    by (simp_all add: p_def q_def r_def dvd_100_4 dvd_400_100)
  have leap: "InLeapYear y \<longleftrightarrow> p \<and> (\<not> q \<or> r)"
    unfolding InLeapYear_def p_def q_def r_def by (rule leap_rule)
  have "DayFromYear (y + 1) =
      365 * (y - 1969) + (y - 1969 + 1) div 4 - (y - 1901 + 1) div 100 + (y - 1601 + 1) div 400"
    by (simp add: DayFromYear_def algebra_simps)
  also have "\<dots> = 365 * (y - 1969) + (a + (if p then 1 else 0)) - (b + (if q then 1 else 0))
      + (c + (if r then 1 else 0))"
    by (simp only: a' b' c')
  also have "\<dots> = (365 * (y - 1970) + a - b + c) + (if p \<and> (\<not> q \<or> r) then 366 else 365)"
    using qp rq by (cases p; cases q; cases r) simp_all
  finally show ?thesis
    by (simp add: leap DayFromYear_def a_def b_def c_def)
qed


lemma DayFromYear_less: "y < z \<Longrightarrow> DayFromYear y < DayFromYear z"
  using DayFromYear_upper [of y] DayFromYear_lower [of z] by (simp add: algebra_simps)

lemma YearFromDay_unique:
  assumes "DayFromYear y \<le> k" and "k < DayFromYear (y + 1)"
  shows "YearFromDay k = y"
proof (rule ccontr)
  assume ne: "YearFromDay k \<noteq> y"
  show False
  proof (cases "YearFromDay k < y")
    case True
    then have "DayFromYear (YearFromDay k + 1) \<le> DayFromYear y"
      using DayFromYear_less [of "YearFromDay k + 1" y] by (cases "YearFromDay k + 1 = y") auto
    with assms(1) YearFromDay_next [of k] show False by simp
  next
    case False
    with ne have "y + 1 \<le> YearFromDay k" by simp
    then have "DayFromYear (y + 1) \<le> DayFromYear (YearFromDay k)"
      using DayFromYear_less [of "y + 1" "YearFromDay k"] by (cases "y + 1 = YearFromDay k") auto
    with assms(2) DayFromYear_YearFromDay [of k] show False by simp
  qed
qed

lemma month_cases:
  "1 \<le> (m::int) \<Longrightarrow> m \<le> 12 \<Longrightarrow>
     m = 1 \<or> m = 2 \<or> m = 3 \<or> m = 4 \<or> m = 5 \<or> m = 6 \<or> m = 7 \<or> m = 8 \<or> m = 9
     \<or> m = 10 \<or> m = 11 \<or> m = 12"
  by presburger


lemma MakeDay_month:
  "0 \<le> mi \<Longrightarrow> mi \<le> 11 \<Longrightarrow>
     MakeDay y mi d = DayFromYear y + monthStart (InLeapYear y) mi + d - 1"
  by (simp add: MakeDay_def)

lemma civil_offset:
  assumes "civilDate (y, m, d)"
  shows "0 \<le> monthStart (InLeapYear y) (m - 1) + d - 1"
    and "monthStart (InLeapYear y) (m - 1) + d - 1 < (if InLeapYear y then 366 else 365)"
    and "monthStart (InLeapYear y) (m - 1) \<le> monthStart (InLeapYear y) (m - 1) + d - 1"
    and "m < 12 \<Longrightarrow> monthStart (InLeapYear y) (m - 1) + d - 1 < monthStart (InLeapYear y) m"
proof -
  from assms have m: "1 \<le> m" "m \<le> 12" and d: "1 \<le> d" "d \<le> civilDaysInMonth y m"
    by (simp_all add: civilDate_def)
  from month_cases [OF m] d
  show "0 \<le> monthStart (InLeapYear y) (m - 1) + d - 1"
    and "monthStart (InLeapYear y) (m - 1) + d - 1 < (if InLeapYear y then 366 else 365)"
    and "monthStart (InLeapYear y) (m - 1) \<le> monthStart (InLeapYear y) (m - 1) + d - 1"
    and "m < 12 \<Longrightarrow> monthStart (InLeapYear y) (m - 1) + d - 1 < monthStart (InLeapYear y) m"
    by (auto simp: monthStart_def civilDaysInMonth_def civilLeapYear_InLeapYear)
qed


lemma MonthFromDay_eq:
  assumes "1 \<le> m" and "m \<le> 12" and "YearFromDay k = y"
    and "DayWithinYear k = monthStart (InLeapYear y) (m - 1) + d - 1"
    and "1 \<le> d" and "d \<le> civilDaysInMonth y m"
  shows "MonthFromDay k = m - 1"
  using month_cases [OF assms(1,2)] assms(3-6)
  by (elim disjE)
     (simp_all add: MonthFromDay_def monthStart_def civilDaysInMonth_def
        civilLeapYear_InLeapYear [symmetric] Let_def split: if_splits)


lemma civil_readers:
  assumes "civilDate (y, m, d)"
  shows "YearFromDay (MakeDay y (m - 1) d) = y"
    and "MonthFromDay (MakeDay y (m - 1) d) = m - 1"
    and "DateFromDay (MakeDay y (m - 1) d) = d"
proof -
  from assms have m: "1 \<le> m" "m \<le> 12" and d: "1 \<le> d" "d \<le> civilDaysInMonth y m"
    by (simp_all add: civilDate_def)
  define off where "off = monthStart (InLeapYear y) (m - 1) + d - 1"
  have k: "MakeDay y (m - 1) d = DayFromYear y + off"
    using m by (simp add: MakeDay_month off_def)
  have off: "0 \<le> off" "off < (if InLeapYear y then 366 else 365)"
    using civil_offset(1,2) [OF assms] by (simp_all add: off_def)
  have "DayFromYear y \<le> DayFromYear y + off"
    using off(1) by simp
  moreover have "DayFromYear y + off < DayFromYear (y + 1)"
    using off(2) by (simp only: DayFromYear_step)
  ultimately show Y: "YearFromDay (MakeDay y (m - 1) d) = y"
    unfolding k by (rule YearFromDay_unique)
  then have dwy: "DayWithinYear (MakeDay y (m - 1) d) = monthStart (InLeapYear y) (m - 1) + d - 1"
    by (simp add: DayWithinYear_def k off_def)
  from MonthFromDay_eq [OF m Y dwy d]
  show M: "MonthFromDay (MakeDay y (m - 1) d) = m - 1" .
  show "DateFromDay (MakeDay y (m - 1) d) = d"
    by (simp add: DateFromDay_def Y M dwy)
qed


lemma previousCivilDay_civilDate:
  assumes "civilDate (y, m, d)"
  shows "civilDate (previousCivilDay (y, m, d))"
proof -
  from assms have m: "1 \<le> m" "m \<le> 12" and d: "1 \<le> d" "d \<le> civilDaysInMonth y m"
    by (simp_all add: civilDate_def)
  then show ?thesis
    by (auto simp: previousCivilDay_def civilDate_def civilDaysInMonth_def)
qed

lemma previousCivilDay_number:
  assumes "civilDate (y, m, d)" and "previousCivilDay (y, m, d) = (y', m', d')"
  shows "MakeDay y' (m' - 1) d' = MakeDay y (m - 1) d - 1"
proof -
  from assms have m: "1 \<le> m" "m \<le> 12" and d: "1 \<le> d" "d \<le> civilDaysInMonth y m"
    by (simp_all add: civilDate_def)
  show ?thesis
  proof (cases "1 < d")
    case True
    with assms(2) m show ?thesis
      by (auto simp: previousCivilDay_def MakeDay_month)
  next
    case False
    with d have d1: "d = 1" by simp
    show ?thesis
    proof (cases "1 < m")
      case True
      with d1 assms(2) have p: "y' = y" "m' = m - 1" "d' = civilDaysInMonth y (m - 1)"
        by (auto simp: previousCivilDay_def)
      from True m have "2 \<le> m" by simp
      with month_cases [OF m] True
      have "monthStart (InLeapYear y) (m - 2) + civilDaysInMonth y (m - 1)
              = monthStart (InLeapYear y) (m - 1)"
        by (elim disjE)
           (simp_all add: monthStart_def civilDaysInMonth_def civilLeapYear_InLeapYear [symmetric])
      with True m show ?thesis
        by (simp add: p d1 MakeDay_month)
    next
      case False
      with m have m1: "m = 1" by simp
      with d1 assms(2) have p: "y' = y - 1" "m' = 12" "d' = 31"
        by (auto simp: previousCivilDay_def)
      have "DayFromYear y = DayFromYear (y - 1) + (if InLeapYear (y - 1) then 366 else 365)"
        using DayFromYear_step [of "y - 1"] by simp
      then show ?thesis
        by (simp add: p m1 d1 MakeDay_month monthStart_def)
    qed
  qed
qed


lemma twoDigits_padStart2: "n < 100 \<Longrightarrow> padStart2 (showNat n) = twoDigits n"
proof (cases "n < 10")
  case True
  then have "showNat n = [digitChar n]" by (subst showNat.simps) simp
  with True show ?thesis
    by (simp add: padStart2_def twoDigits_def digitChar_def)
next
  case False
  assume "n < 100"
  with False have "n div 10 < 10" by simp
  then have "showNat (n div 10) = [digitChar (n div 10)]" by (subst showNat.simps) simp
  with False have "showNat n = [digitChar (n div 10), digitChar n]"
    by (subst showNat.simps) simp
  then show ?thesis
    by (simp add: padStart2_def twoDigits_def)
qed

lemma civilKey_fields:
  assumes "0 \<le> y" and "0 \<le> m" and "m < 100" and "0 \<le> d" and "d < 100"
  shows "split CHR ''-'' (civilKey (y, m, d))
           = [showNat (nat y), padStart2 (showNat (nat m)), padStart2 (showNat (nat d))]"
    and "civilKey (y, m, d) = String (Some y) @ ''-'' @ padStart2 (String (Some m))
           @ ''-'' @ padStart2 (String (Some d))"
proof -
  from assms have two: "twoDigits (nat m) = padStart2 (showNat (nat m))"
      "twoDigits (nat d) = padStart2 (showNat (nat d))"
    by (simp_all add: twoDigits_padStart2)
  show "split CHR ''-'' (civilKey (y, m, d))
           = [showNat (nat y), padStart2 (showNat (nat m)), padStart2 (showNat (nat d))]"
    by (simp add: civilKey_def two split_field split_last showNat_no_dash padStart2_no_dash)
  from assms show "civilKey (y, m, d) = String (Some y) @ ''-'' @ padStart2 (String (Some m))
           @ ''-'' @ padStart2 (String (Some d))"
    by (simp add: civilKey_def two String_def)
qed

lemma addDays_fields_exact:
  assumes "split CHR ''-'' date = [y, m, d]"
    and "Number y = Some yv" and "Number m = Some mv" and "Number d = Some dv"
    and "k = MakeDay (if 0 \<le> yv \<and> yv \<le> 99 then 1900 + yv else yv) (mv - 1) dv"
    and "\<bar>MakeDate k 43200000\<bar> \<le> 8640000000000000"
    and "\<bar>MakeDate (k + delta) 43200000\<bar> \<le> 8640000000000000"
  shows "addDays date delta = showDay (Some (MakeDate (k + delta) 43200000))"
proof -
  have T: "TimeClip (MakeDate k 43200000) = Some (MakeDate k 43200000)"
    "TimeClip (MakeDate (k + delta) 43200000) = Some (MakeDate (k + delta) 43200000)"
    using assms(6,7) by (simp_all add: TimeClip_def)
  have "dateUTC (Some yv) (Some (mv - 1)) (Some dv) = Some (MakeDate k 43200000)"
    by (simp only: dateUTC_Some assms(5) [symmetric] T)
  with assms(1-4) have "addDays date delta =
      showDay (setUTCDate (Some (MakeDate k 43200000))
        (map_option (\<lambda>v. v + delta) (getUTCDate (Some (MakeDate k 43200000)))))"
    by (simp add: addDays_def showDay_def Let_def element_def)
  then show ?thesis
    by (simp add: getUTCDate_def Day_noon setUTCDate_noon T)
qed


lemma civilDate_bounds:
  assumes "civilDate (y, m, d)"
  shows "1 \<le> m" and "m \<le> 12" and "1 \<le> d" and "d \<le> 31"
  using assms by (auto simp: civilDate_def civilDaysInMonth_def split: if_splits)

lemma civil_day_range:
  assumes "civilDate (y, m, d)" and "99 \<le> y" and "y \<le> 275759"
  shows "\<bar>MakeDate (MakeDay y (m - 1) d) 43200000\<bar> \<le> 8640000000000000"
proof -
  define off where "off = monthStart (InLeapYear y) (m - 1) + d - 1"
  have k: "MakeDay y (m - 1) d = DayFromYear y + off"
    using civilDate_bounds [OF assms(1)] by (simp add: MakeDay_month off_def)
  have off: "0 \<le> off" "off < 366"
    using civil_offset(1,2) [OF assms(1)] by (simp_all add: off_def split: if_splits)
  have "DayFromYear y \<le> 99999380"
    using DayFromYear_upper [of y] assms(3) by (simp add: algebra_simps)
  moreover have "- 700000 \<le> DayFromYear y"
    using DayFromYear_lower [of y] assms(2) by (simp add: algebra_simps)
  ultimately show ?thesis
    using off by (simp add: k MakeDate_def msPerDay_def abs_le_iff)
qed

lemma addDays_previous_civil_day:
  assumes "civilDate (y, m, d)" and "100 \<le> y" and "y \<le> 275759"
  shows "addDays (civilKey (y, m, d)) (- 1) = civilKey (previousCivilDay (y, m, d))"
proof -
  obtain y' m' d' where p: "previousCivilDay (y, m, d) = (y', m', d')"
    by (cases "previousCivilDay (y, m, d)") auto
  from previousCivilDay_civilDate [OF assms(1)] p have valid': "civilDate (y', m', d')"
    by simp
  have y': "99 \<le> y'" "y' \<le> 275759"
    using p assms(2,3) by (auto simp: previousCivilDay_def split: if_splits)
  note b = civilDate_bounds [OF assms(1)] and b' = civilDate_bounds [OF valid']
  define k where "k = MakeDay y (m - 1) d"
  have prev: "MakeDay y' (m' - 1) d' = k + (- 1)"
    using previousCivilDay_number [OF assms(1) p] by (simp add: k_def)
  have fields: "split CHR ''-'' (civilKey (y, m, d))
      = [showNat (nat y), padStart2 (showNat (nat m)), padStart2 (showNat (nat d))]"
    using assms(2) b by (intro civilKey_fields(1)) simp_all
  have num: "Number (showNat (nat y)) = Some y"
      "Number (padStart2 (showNat (nat m))) = Some m"
      "Number (padStart2 (showNat (nat d))) = Some d"
    using assms(2) b by (simp_all add: Number_showNat Number_padStart2)
  have k': "k = MakeDay (if 0 \<le> y \<and> y \<le> 99 then 1900 + y else y) (m - 1) d"
    using assms(2) by (simp add: k_def)
  have r: "\<bar>MakeDate k 43200000\<bar> \<le> 8640000000000000"
    using civil_day_range [OF assms(1)] assms(2,3) by (simp add: k_def)
  have r': "\<bar>MakeDate (k + (- 1)) 43200000\<bar> \<le> 8640000000000000"
    using civil_day_range [OF valid' y'] by (simp only: prev)
  from addDays_fields_exact [OF fields num k' r r']
  have "addDays (civilKey (y, m, d)) (- 1) = showDay (Some (MakeDate (k + (- 1)) 43200000))" .
  also have "\<dots> = String (Some y') @ ''-'' @ padStart2 (String (Some (m' - 1 + 1)))
      @ ''-'' @ padStart2 (String (Some d'))"
    by (simp only: showDay_Some prev [symmetric] civil_readers [OF valid'])
  also have "\<dots> = civilKey (y', m', d')"
    using y' b' by (subst civilKey_fields(2)) simp_all
  finally show ?thesis by (simp add: p)
qed


lemma civilKey_ymdKey:
  assumes "civilDate (y, m, d)" and "0 \<le> y"
  shows "ymdKey (civilKey (y, m, d))"
proof -
  note b = civilDate_bounds [OF assms(1)]
  have "split CHR ''-'' (civilKey (y, m, d))
      = [showNat (nat y), padStart2 (showNat (nat m)), padStart2 (showNat (nat d))]"
    using assms(2) b by (intro civilKey_fields(1)) simp_all
  moreover have "padStart2 (showNat n) \<noteq> []" for n
    using showNat_nonempty [of n] by (simp add: padStart2_def)
  ultimately show ?thesis
    by (simp add: ymdKey_def Number_showNat Number_padStart2 showNat_nonempty)
qed

lemma civilKey_sample:
  "civilKey (2024, 3, 1) = ''2024-03-01''"
  "civilKey (previousCivilDay (2024, 3, 1)) = ''2024-02-29''"
  "civilDate (2024, 3, 1)"
  by code_simp+

subsection \<open>The operations in closed form\<close>

text \<open>JavaScript's remainder is zero exactly on the even numbers.\<close>

lemma smod_two_even: "(k::int) smod 2 = 0 \<longleftrightarrow> even k"
  by (auto simp: signed_modulo_int_def sgn_if)

text \<open>
  \<open>upsertWorkout\<close> reads yesterday's row after its own insert, so a string that is
  its own previous-day key (\<open>''NaN-NaN-NaN''\<close>, for which \<open>addDays\<close> returns itself)
  finds the row just written.
\<close>

lemma upsertWorkout_unfold:
  "upsertWorkout db u d n1 n2 =
     (if days db (u, d) \<noteq> None then Inr db
      else if users db u = None then Inl ForeignKeyViolation
      else (case user_state db u of
              None \<Rightarrow> Inr (db\<lparr>days := (days db)((u, d) \<mapsto> \<lparr>status = Workout, created_at = n1\<rparr>)\<rparr>)
            | Some st \<Rightarrow>
                (let consec = (if addDays d (- 1) = d
                                  \<or> map_option status (days db (u, addDays d (- 1))) = Some Workout
                               then consec_workout st + 1 else 1);
                     skip = (if even consec \<and> skip_points st < 2
                             then skip_points st + 1 else skip_points st)
                 in Inr (db\<lparr>days := (days db)((u, d) \<mapsto> \<lparr>status = Workout, created_at = n1\<rparr>),
                            user_state := (user_state db)(u \<mapsto>
                              \<lparr>skip_points = skip, consec_workout = consec, updated_at = n2\<rparr>)\<rparr>))))"
  by (auto simp: upsertWorkout_def selectDay_def selectState_def insertDay_def andThen_def
      updateState_def smod_two_even Let_def split: option.splits)

lemma useSkip_unfold:
  "useSkip db u d n1 n2 =
     (case user_state db u of
        None \<Rightarrow> Inr db
      | Some st \<Rightarrow>
          if skip_points st \<le> 0 then Inr db
          else if days db (u, d) \<noteq> None then Inr db
          else if users db u = None then Inl ForeignKeyViolation
          else Inr (db\<lparr>days := (days db)((u, d) \<mapsto> \<lparr>status = Skip, created_at = n1\<rparr>),
                       user_state := (user_state db)(u \<mapsto>
                         \<lparr>skip_points = skip_points st - 1, consec_workout = 0, updated_at = n2\<rparr>)\<rparr>))"
  by (auto simp: useSkip_def selectDay_def selectState_def insertDay_def andThen_def
      updateState_def split: option.splits)

lemma ensureBaseUsers_unfold:
  "ensureBaseUsers db ns now =
     Inr (db\<lparr>users := (users db)
                (''user1'' := (case users db ''user1'' of None \<Rightarrow> Some (user1 ns) | Some n \<Rightarrow> Some n),
                 ''user2'' := (case users db ''user2'' of None \<Rightarrow> Some (user2 ns) | Some n \<Rightarrow> Some n)),
             user_state := (user_state db)
                (''user1'' := (case user_state db ''user1'' of
                                 None \<Rightarrow> Some \<lparr>skip_points = 2, consec_workout = 0, updated_at = now\<rparr>
                               | Some s \<Rightarrow> Some s),
                 ''user2'' := (case user_state db ''user2'' of
                                 None \<Rightarrow> Some \<lparr>skip_points = 2, consec_workout = 0, updated_at = now\<rparr>
                               | Some s \<Rightarrow> Some s))\<rparr>)"
  by (cases "users db ''user1''"; cases "users db ''user2''";
      cases "user_state db ''user1''"; cases "user_state db ''user2''")
     (simp_all add: ensureBaseUsers_def andThen_def insertOrIgnoreUser_def
        insertOrIgnoreState_def fun_upd_idem)

lemma addDays_sample: "addDays ''2024-03-01'' (- 1) = ''2024-02-29''"
  by code_simp

lemma ymdKey_sample: "ymdKey ''2024-03-01''"
  by (simp add: ymdKey_def Number_def digitValue_def)

lemma addDays_leap_week:
  "addDays ''2024-02-28'' (- 1) = ''2024-02-27''"
  "addDays ''2024-02-29'' (- 1) = ''2024-02-28''"
  by code_simp+

lemma ymdKey_leap_week:
  "ymdKey ''2024-02-27''" "ymdKey ''2024-02-28''" "ymdKey ''2024-02-29''"
  by (simp_all add: ymdKey_def Number_def digitValue_def)


subsection \<open>The skip budget is an invariant\<close>

lemma budgetOk_row:
  "budgetOk db \<Longrightarrow> 0 \<le> sp \<Longrightarrow> sp \<le> 2
     \<Longrightarrow> budgetOk (db\<lparr>days := dd, user_state := (user_state db)(u \<mapsto>
            \<lparr>skip_points = sp, consec_workout = c, updated_at = t\<rparr>)\<rparr>)"
  by (auto simp: budgetOk_def)

lemma budgetOk_days: "budgetOk db \<Longrightarrow> budgetOk (db\<lparr>days := dd\<rparr>)"
  by (simp add: budgetOk_def)

lemma budgetOk_upsertWorkout:
  assumes "budgetOk db"
  shows "budgetOk (outcome db (upsertWorkout db u d n1 n2))"
proof (cases "user_state db u")
  case None
  then show ?thesis
    using assms by (simp add: outcome_def upsertWorkout_unfold budgetOk_days)
next
  case (Some st)
  with assms have "0 \<le> skip_points st" "skip_points st \<le> 2"
    by (auto simp: budgetOk_def)
  with Some assms show ?thesis
    by (simp add: outcome_def upsertWorkout_unfold Let_def budgetOk_row)
qed

lemma budgetOk_useSkip:
  assumes "budgetOk db"
  shows "budgetOk (outcome db (useSkip db u d n1 n2))"
proof (cases "user_state db u")
  case None
  then show ?thesis using assms by (simp add: outcome_def useSkip_unfold)
next
  case (Some st)
  with assms have "0 \<le> skip_points st" "skip_points st \<le> 2"
    by (auto simp: budgetOk_def)
  with Some assms show ?thesis
    by (simp add: outcome_def useSkip_unfold budgetOk_row)
qed

lemma budgetOk_ensureBaseUsers:
  "budgetOk db \<Longrightarrow> budgetOk (outcome db (ensureBaseUsers db ns now))"
  by (auto simp: budgetOk_def outcome_def ensureBaseUsers_unfold split: option.splits if_splits)

lemma budgetOk_serve: "budgetOk db \<Longrightarrow> budgetOk (serve db rq)"
  by (cases rq) (simp_all add: budgetOk_upsertWorkout budgetOk_useSkip budgetOk_ensureBaseUsers)

lemma budgetOk_serveAll: "budgetOk db \<Longrightarrow> budgetOk (serveAll db rqs)"
  unfolding serveAll_def by (induction rqs arbitrary: db) (simp_all add: budgetOk_serve)

lemma budgetOk_emptyStore: "budgetOk emptyStore"
  by (simp add: budgetOk_def emptyStore_def)

text \<open>One workout of a user whose budget is full.\<close>

lemma workout_step:
  assumes "days db (v, d) = None" and "users db v = Some nm"
    and "counters db v = Some (2, c)"
  shows "\<exists>db'. upsertWorkout db v d a b = Inr db'
           \<and> users db' v = Some nm
           \<and> days db' (v, d) = Some \<lparr>status = Workout, created_at = a\<rparr>
           \<and> (\<forall>d'. d' \<noteq> d \<longrightarrow> days db' (v, d') = days db (v, d'))
           \<and> counters db' v = Some (2,
                if addDays d (- 1) = d
                   \<or> map_option status (days db (v, addDays d (- 1))) = Some Workout
                then c + 1 else 1)"
  using assms by (auto simp: upsertWorkout_unfold counters_def Let_def)


section \<open>The claims\<close>

text \<open>
  C1. In \<open>upsertWorkout\<close>, when the day is newly inserted for an existing user with a
  state row, the persisted \<open>skip_points\<close> is the old value plus one exactly when the
  new streak (the persisted \<open>consec_workout\<close>) is even and the old value is below 2,
  and is the old value otherwise; in particular it is unchanged for every odd new
  streak and whenever the old value is 2. From the counters (0, 1) with a workout row
  on the day before a date key, the new counters are (1, 2).
\<close>

theorem upsertWorkout_skip_regeneration:
  assumes "days db (u, date) = None" and "users db u = Some nm"
    and "user_state db u = Some st"
  shows "\<exists>db' st'. upsertWorkout db u date now1 now2 = Inr db'
           \<and> user_state db' u = Some st'
           \<and> (skip_points st' = skip_points st + 1
                \<longleftrightarrow> even (consec_workout st') \<and> skip_points st < 2)
           \<and> (skip_points st' = skip_points st
                \<longleftrightarrow> \<not> (even (consec_workout st') \<and> skip_points st < 2))
           \<and> (odd (consec_workout st') \<or> skip_points st = 2
                \<longrightarrow> skip_points st' = skip_points st)
           \<and> (skip_points st = 0 \<and> consec_workout st = 1 \<and> ymdKey date
                \<and> map_option status (days db (u, addDays date (- 1))) = Some Workout
                \<longrightarrow> skip_points st' = 1 \<and> consec_workout st' = 2)"
  using assms by (auto simp: upsertWorkout_unfold Let_def)

theorem upsertWorkout_skip_regeneration_witness:
  "\<exists>db' st'. upsertWorkout sampleStore ''user1'' ''2024-03-01'' 7 8 = Inr db'
      \<and> user_state db' ''user1'' = Some st'
      \<and> skip_points st' = 1 \<and> consec_workout st' = 2"
proof -
  have a: "days sampleStore (''user1'', ''2024-03-01'') = None"
    by (simp add: sampleStore_def)
  have b: "users sampleStore ''user1'' = Some ''A''"
    by (simp add: sampleStore_def)
  have c: "user_state sampleStore ''user1''
             = Some \<lparr>skip_points = 0, consec_workout = 1, updated_at = 5\<rparr>"
    by (simp add: sampleStore_def)
  have d: "map_option status (days sampleStore (''user1'', addDays ''2024-03-01'' (- 1)))
             = Some Workout"
    by (simp add: addDays_sample sampleStore_def)
  from upsertWorkout_skip_regeneration [OF a b c, of 7 8] d ymdKey_sample show ?thesis
    by auto
qed

text \<open>
  C2. In \<open>upsertWorkout\<close> for a user and a calendar date (from the year 1000 on, so
  that the key of the date and the key of its previous day are \<^verbatim>\<open>YYYY-MM-DD\<close> without
  a leading zero), when the day is newly inserted for an existing user with a state
  row: if the row of the previous calendar day exists with status workout, the
  persisted \<open>consec_workout\<close> is the stored one plus one; in every other case (no row
  for the previous day, or a skip) it is 1, whatever the stored streak was. The
  previous calendar day is \<open>previousCivilDay\<close>, not what \<open>addDays\<close> returns; that the
  code looks up its key is \<open>addDays_previous_civil_day\<close>, and that it reads the store
  as it was before the call, although it reads after its own insert, is
  \<open>addDays_previous_differs\<close>. The stored streak is within the integers on which
  JavaScript adds one exactly.
\<close>

theorem upsertWorkout_streak:
  assumes "civilDate (y, m, d)" and "1000 \<le> y" and "y \<le> 275759"
    and "(y, m, d) \<noteq> (1000, 1, 1)"
    and "days db (u, civilKey (y, m, d)) = None" and "users db u = Some nm"
    and "user_state db u = Some st" and "\<bar>consec_workout st\<bar> < 2 ^ 53"
  shows "\<exists>db' st'. upsertWorkout db u (civilKey (y, m, d)) now1 now2 = Inr db'
           \<and> user_state db' u = Some st'
           \<and> consec_workout st' =
               (if map_option status (days db (u, civilKey (previousCivilDay (y, m, d))))
                     = Some Workout
                then consec_workout st + 1 else 1)"
proof -
  have prev: "addDays (civilKey (y, m, d)) (- 1) = civilKey (previousCivilDay (y, m, d))"
    using assms(1-3) by (intro addDays_previous_civil_day) simp_all
  have "ymdKey (civilKey (y, m, d))"
    using assms(1,2) by (intro civilKey_ymdKey) simp_all
  then have "addDays (civilKey (y, m, d)) (- 1) \<noteq> civilKey (y, m, d)"
    by (rule addDays_previous_differs)
  then have "civilKey (previousCivilDay (y, m, d)) \<noteq> civilKey (y, m, d)"
    unfolding prev .
  with assms(5-7) show ?thesis
    by (simp add: upsertWorkout_unfold prev Let_def)
qed

text \<open>
  The witness, on 1 March 2024, whose previous day is 29 February: \<open>user1\<close> has a
  workout row on that day and the streak goes from 1 to 2; \<open>user2\<close> has no row on that
  day and the streak goes from 3 to 1.
\<close>

theorem upsertWorkout_streak_witness:
  "civilKey (2024, 3, 1) = ''2024-03-01''
   \<and> civilKey (previousCivilDay (2024, 3, 1)) = ''2024-02-29''
   \<and> counters sampleStore ''user1'' = Some (0, 1)
   \<and> (\<exists>db' st'. upsertWorkout sampleStore ''user1'' ''2024-03-01'' 7 8 = Inr db'
          \<and> user_state db' ''user1'' = Some st' \<and> consec_workout st' = 2)
   \<and> counters sampleStore ''user2'' = Some (1, 3)
   \<and> (\<exists>db' st'. upsertWorkout sampleStore ''user2'' ''2024-03-01'' 7 8 = Inr db'
          \<and> user_state db' ''user2'' = Some st' \<and> consec_workout st' = 1)"
proof -
  note k = civilKey_sample(1,2)
  have date: "civilDate (2024, 3, 1)" "(1000::int) \<le> 2024" "(2024::int) \<le> 275759"
      "(2024, 3, 1) \<noteq> (1000::int, 1::int, 1::int)"
    by (simp_all add: civilKey_sample(3))
  have a1: "days sampleStore (''user1'', civilKey (2024, 3, 1)) = None"
    and a2: "days sampleStore (''user2'', civilKey (2024, 3, 1)) = None"
    by (simp_all add: k sampleStore_def)
  have b1: "users sampleStore ''user1'' = Some ''A''"
    and b2: "users sampleStore ''user2'' = Some ''B''"
    by (simp_all add: sampleStore_def)
  have c1: "user_state sampleStore ''user1''
             = Some \<lparr>skip_points = 0, consec_workout = 1, updated_at = 5\<rparr>"
    and c2: "user_state sampleStore ''user2''
             = Some \<lparr>skip_points = 1, consec_workout = 3, updated_at = 6\<rparr>"
    by (simp_all add: sampleStore_def)
  have e1: "\<bar>consec_workout \<lparr>skip_points = 0, consec_workout = 1, updated_at = 5\<rparr>\<bar>
              < (2::int) ^ 53"
    and e2: "\<bar>consec_workout \<lparr>skip_points = 1, consec_workout = 3, updated_at = 6\<rparr>\<bar>
              < (2::int) ^ 53"
    by simp_all
  have p1: "map_option status (days sampleStore (''user1'', civilKey (previousCivilDay (2024, 3, 1))))
              = Some Workout"
    and p2: "days sampleStore (''user2'', civilKey (previousCivilDay (2024, 3, 1))) = None"
    by (simp_all add: k sampleStore_def)
  from upsertWorkout_streak [OF date a1 b1 c1 e1, of 7 8] p1
  have r1: "\<exists>db' st'. upsertWorkout sampleStore ''user1'' ''2024-03-01'' 7 8 = Inr db'
          \<and> user_state db' ''user1'' = Some st' \<and> consec_workout st' = 2"
    by (simp add: k)
  from upsertWorkout_streak [OF date a2 b2 c2 e2, of 7 8] p2
  have r2: "\<exists>db' st'. upsertWorkout sampleStore ''user2'' ''2024-03-01'' 7 8 = Inr db'
          \<and> user_state db' ''user2'' = Some st' \<and> consec_workout st' = 1"
    by (simp add: k)
  from k r1 r2 c1 c2 show ?thesis
    by (simp add: counters_def)
qed

text \<open>
  C3. In every store reached from the store that \<open>ensureBaseUsers\<close> creates out of
  the empty one, by any sequence of \<open>upsertWorkout\<close>, \<open>useSkip\<close> and
  \<open>ensureBaseUsers\<close> calls, every state row has \<open>0 \<le> skip_points \<le> 2\<close>. A single
  \<open>upsertWorkout\<close> never takes a budget of at most 2 above 2, and a single \<open>useSkip\<close>
  never takes a non-negative budget below 0. Four workouts on four date keys without
  row, each the day after the one before, from the counters (2, 0), give the streaks
  1, 2, 3, 4 with \<open>skip_points\<close> 2 after each.
\<close>

theorem skip_points_in_range:
  "(ensureBaseUsers emptyStore ns now0 = Inr db0
      \<longrightarrow> user_state (serveAll db0 rqs) u = Some st
      \<longrightarrow> 0 \<le> skip_points st \<and> skip_points st \<le> 2)
   \<and> (upsertWorkout dbw w dw n1 n2 = Inr dbw' \<and> user_state dbw w = Some sw
        \<and> user_state dbw' w = Some sw' \<and> skip_points sw \<le> 2
      \<longrightarrow> skip_points sw \<le> skip_points sw' \<and> skip_points sw' \<le> 2)
   \<and> (useSkip dbs x ds n3 n4 = Inr dbs' \<and> user_state dbs x = Some sx
        \<and> user_state dbs' x = Some sx' \<and> 0 \<le> skip_points sx
      \<longrightarrow> 0 \<le> skip_points sx' \<and> skip_points sx' \<le> skip_points sx)
   \<and> (counters db v = Some (2, 0) \<and> users db v = Some nm
        \<and> distinct [d1, d2, d3, d4]
        \<and> (\<forall>d \<in> set [d1, d2, d3, d4]. ymdKey d \<and> days db (v, d) = None)
        \<and> addDays d2 (- 1) = d1 \<and> addDays d3 (- 1) = d2 \<and> addDays d4 (- 1) = d3
      \<longrightarrow> (\<exists>db1 db2 db3 db4.
             upsertWorkout db v d1 a1 b1 = Inr db1 \<and> counters db1 v = Some (2, 1)
           \<and> upsertWorkout db1 v d2 a2 b2 = Inr db2 \<and> counters db2 v = Some (2, 2)
           \<and> upsertWorkout db2 v d3 a3 b3 = Inr db3 \<and> counters db3 v = Some (2, 3)
           \<and> upsertWorkout db3 v d4 a4 b4 = Inr db4 \<and> counters db4 v = Some (2, 4)))"
proof (intro conjI impI)
  assume "ensureBaseUsers emptyStore ns now0 = Inr db0"
  then have "db0 = outcome emptyStore (ensureBaseUsers emptyStore ns now0)"
    by (simp add: outcome_def)
  then have "budgetOk (serveAll db0 rqs)"
    using budgetOk_emptyStore budgetOk_ensureBaseUsers budgetOk_serveAll by simp
  moreover assume "user_state (serveAll db0 rqs) u = Some st"
  ultimately show "0 \<le> skip_points st" and "skip_points st \<le> 2"
    by (auto simp: budgetOk_def)
next
  assume w: "upsertWorkout dbw w dw n1 n2 = Inr dbw' \<and> user_state dbw w = Some sw
        \<and> user_state dbw' w = Some sw' \<and> skip_points sw \<le> 2"
  then show "skip_points sw \<le> skip_points sw'" and "skip_points sw' \<le> 2"
    by (auto simp: upsertWorkout_unfold Let_def split: if_splits)
next
  assume x: "useSkip dbs x ds n3 n4 = Inr dbs' \<and> user_state dbs x = Some sx
        \<and> user_state dbs' x = Some sx' \<and> 0 \<le> skip_points sx"
  then show "0 \<le> skip_points sx'" and "skip_points sx' \<le> skip_points sx"
    by (auto simp: useSkip_unfold split: if_splits)
next
  assume h: "counters db v = Some (2, 0) \<and> users db v = Some nm
        \<and> distinct [d1, d2, d3, d4]
        \<and> (\<forall>d \<in> set [d1, d2, d3, d4]. ymdKey d \<and> days db (v, d) = None)
        \<and> addDays d2 (- 1) = d1 \<and> addDays d3 (- 1) = d2 \<and> addDays d4 (- 1) = d3"
  then have c0: "counters db v = Some (2, 0)" and u0: "users db v = Some nm"
    and ne: "d2 \<noteq> d1" "d3 \<noteq> d1" "d4 \<noteq> d1" "d3 \<noteq> d2" "d4 \<noteq> d2" "d4 \<noteq> d3"
    and fresh: "days db (v, d1) = None" "days db (v, d2) = None"
               "days db (v, d3) = None" "days db (v, d4) = None"
    and prev: "addDays d2 (- 1) = d1" "addDays d3 (- 1) = d2" "addDays d4 (- 1) = d3"
    by auto
  from workout_step [OF fresh(1) u0 c0, of a1 b1]
  obtain db1 where s1: "upsertWorkout db v d1 a1 b1 = Inr db1" "users db1 v = Some nm"
      "days db1 (v, d1) = Some \<lparr>status = Workout, created_at = a1\<rparr>"
      "\<forall>d'. d' \<noteq> d1 \<longrightarrow> days db1 (v, d') = days db (v, d')"
      "counters db1 v = Some (2, 1)"
    by auto
  have f2: "days db1 (v, d2) = None" using s1(4) ne fresh by simp
  from workout_step [OF f2 s1(2) s1(5), of a2 b2]
  obtain db2 where s2: "upsertWorkout db1 v d2 a2 b2 = Inr db2" "users db2 v = Some nm"
      "days db2 (v, d2) = Some \<lparr>status = Workout, created_at = a2\<rparr>"
      "\<forall>d'. d' \<noteq> d2 \<longrightarrow> days db2 (v, d') = days db1 (v, d')"
      "counters db2 v = Some (2, 2)"
    using prev(1) s1(3) by auto
  have f3: "days db2 (v, d3) = None" using s2(4) s1(4) ne fresh by simp
  from workout_step [OF f3 s2(2) s2(5), of a3 b3]
  obtain db3 where s3: "upsertWorkout db2 v d3 a3 b3 = Inr db3" "users db3 v = Some nm"
      "days db3 (v, d3) = Some \<lparr>status = Workout, created_at = a3\<rparr>"
      "\<forall>d'. d' \<noteq> d3 \<longrightarrow> days db3 (v, d') = days db2 (v, d')"
      "counters db3 v = Some (2, 3)"
    using prev(2) s2(3) by auto
  have f4: "days db3 (v, d4) = None" using s3(4) s2(4) s1(4) ne fresh by simp
  from workout_step [OF f4 s3(2) s3(5), of a4 b4]
  obtain db4 where s4: "upsertWorkout db3 v d4 a4 b4 = Inr db4"
      "counters db4 v = Some (2, 4)"
    using prev(3) s3(3) by auto
  from s1 s2 s3 s4 show "\<exists>db1 db2 db3 db4.
             upsertWorkout db v d1 a1 b1 = Inr db1 \<and> counters db1 v = Some (2, 1)
           \<and> upsertWorkout db1 v d2 a2 b2 = Inr db2 \<and> counters db2 v = Some (2, 2)
           \<and> upsertWorkout db2 v d3 a3 b3 = Inr db3 \<and> counters db3 v = Some (2, 3)
           \<and> upsertWorkout db3 v d4 a4 b4 = Inr db4 \<and> counters db4 v = Some (2, 4)"
    by blast
qed

text \<open>
  The witness, on the fresh store: three skips in a row, of which the first two use up
  the budget and the third is refused; and four workouts from 27 February 2024 to
  1 March 2024.
\<close>

theorem skip_points_in_range_witness:
  "ensureBaseUsers emptyStore sampleNames 0
     = Inr (outcome emptyStore (ensureBaseUsers emptyStore sampleNames 0))
   \<and> (\<exists>st. user_state (serveAll (outcome emptyStore (ensureBaseUsers emptyStore sampleNames 0))
        [RecordSkip ''user1'' ''2024-03-01'' 1 2,
         RecordSkip ''user1'' ''2024-03-02'' 3 4,
         RecordSkip ''user1'' ''2024-03-03'' 5 6]) ''user1'' = Some st
        \<and> consec_workout st = 0 \<and> updated_at st = 4
        \<and> 0 \<le> skip_points st \<and> skip_points st \<le> 2)
   \<and> (\<exists>db1 db2 db3 db4.
         upsertWorkout (outcome emptyStore (ensureBaseUsers emptyStore sampleNames 0))
           ''user2'' ''2024-02-27'' 1 2 = Inr db1 \<and> counters db1 ''user2'' = Some (2, 1)
       \<and> upsertWorkout db1 ''user2'' ''2024-02-28'' 3 4 = Inr db2
       \<and> counters db2 ''user2'' = Some (2, 2)
       \<and> upsertWorkout db2 ''user2'' ''2024-02-29'' 5 6 = Inr db3
       \<and> counters db3 ''user2'' = Some (2, 3)
       \<and> upsertWorkout db3 ''user2'' ''2024-03-01'' 7 8 = Inr db4
       \<and> counters db4 ''user2'' = Some (2, 4))"
proof -
  define fresh where "fresh = outcome emptyStore (ensureBaseUsers emptyStore sampleNames 0)"
  have a: "ensureBaseUsers emptyStore sampleNames 0 = Inr fresh"
    by (simp add: fresh_def ensureBaseUsers_unfold outcome_def)
  have "\<exists>st. user_state (serveAll fresh
        [RecordSkip ''user1'' ''2024-03-01'' 1 2,
         RecordSkip ''user1'' ''2024-03-02'' 3 4,
         RecordSkip ''user1'' ''2024-03-03'' 5 6]) ''user1'' = Some st
        \<and> consec_workout st = 0 \<and> updated_at st = 4"
    by (simp add: fresh_def serveAll_def outcome_def ensureBaseUsers_unfold useSkip_unfold
        emptyStore_def sampleNames_def)
  then obtain st where b: "user_state (serveAll fresh
        [RecordSkip ''user1'' ''2024-03-01'' 1 2,
         RecordSkip ''user1'' ''2024-03-02'' 3 4,
         RecordSkip ''user1'' ''2024-03-03'' 5 6]) ''user1'' = Some st"
    and c: "consec_workout st = 0" "updated_at st = 4"
    by blast
  from skip_points_in_range [THEN conjunct1, rule_format, OF a b]
  have d: "0 \<le> skip_points st \<and> skip_points st \<le> 2" .
  have e: "counters fresh ''user2'' = Some (2, 0) \<and> users fresh ''user2'' = Some ''B''
        \<and> distinct [''2024-02-27'', ''2024-02-28'', ''2024-02-29'', ''2024-03-01'']
        \<and> (\<forall>d \<in> set [''2024-02-27'', ''2024-02-28'', ''2024-02-29'', ''2024-03-01''].
              ymdKey d \<and> days fresh (''user2'', d) = None)
        \<and> addDays ''2024-02-28'' (- 1) = ''2024-02-27''
        \<and> addDays ''2024-02-29'' (- 1) = ''2024-02-28''
        \<and> addDays ''2024-03-01'' (- 1) = ''2024-02-29''"
    by (simp add: fresh_def outcome_def ensureBaseUsers_unfold emptyStore_def sampleNames_def
        counters_def addDays_sample addDays_leap_week ymdKey_sample ymdKey_leap_week)
  note f = skip_points_in_range [THEN conjunct2, THEN conjunct2, THEN conjunct2,
      rule_format, OF e, of 1 2 3 4 5 6 7 8]
  from a b c d f show ?thesis
    unfolding fresh_def by blast
qed

text \<open>
  C4. For a user with \<open>skip_points > 0\<close> and no row for the date, \<open>useSkip\<close> inserts a
  row with status skip for the date and persists \<open>skip_points\<close> decreased by one and
  \<open>consec_workout\<close> 0; from the counters (1, 3) it gives (0, 0).
\<close>

theorem useSkip_consumes_point:
  assumes "user_state db u = Some st" and "0 < skip_points st"
    and "days db (u, date) = None" and "users db u = Some nm"
  shows "\<exists>db'. useSkip db u date now1 now2 = Inr db'
           \<and> days db' (u, date) = Some \<lparr>status = Skip, created_at = now1\<rparr>
           \<and> user_state db' u = Some \<lparr>skip_points = skip_points st - 1,
                                        consec_workout = 0, updated_at = now2\<rparr>
           \<and> (skip_points st = 1 \<and> consec_workout st = 3 \<longrightarrow> counters db' u = Some (0, 0))"
  using assms by (simp add: useSkip_unfold counters_def)

theorem useSkip_consumes_point_witness:
  "\<exists>db'. useSkip sampleStore ''user2'' ''2024-03-01'' 7 8 = Inr db'
      \<and> days db' (''user2'', ''2024-03-01'') = Some \<lparr>status = Skip, created_at = 7\<rparr>
      \<and> counters db' ''user2'' = Some (0, 0)"
proof -
  have a: "user_state sampleStore ''user2''
             = Some \<lparr>skip_points = 1, consec_workout = 3, updated_at = 6\<rparr>"
    by (simp add: sampleStore_def)
  have b: "0 < skip_points \<lparr>skip_points = 1, consec_workout = 3, updated_at = 6\<rparr>"
    by simp
  have c: "days sampleStore (''user2'', ''2024-03-01'') = None"
    by (simp add: sampleStore_def)
  have d: "users sampleStore ''user2'' = Some ''B''"
    by (simp add: sampleStore_def)
  from useSkip_consumes_point [OF a b c d, of 7 8] show ?thesis
    by auto
qed

text \<open>
  C5. \<open>upsertWorkout\<close> is idempotent: on the store that a first call returns, a second
  call for the same user and date (at any later time) finds the row of the day and
  returns that store unchanged; and when the first call throws, which leaves the store
  as it was, the second call throws the same error.
\<close>

theorem upsertWorkout_idempotent:
  "(\<forall>db'. upsertWorkout db u date now1 now2 = Inr db'
        \<longrightarrow> days db' (u, date) \<noteq> None \<and> upsertWorkout db' u date now3 now4 = Inr db')
   \<and> (\<forall>e. upsertWorkout db u date now1 now2 = Inl e
        \<longrightarrow> upsertWorkout db u date now3 now4 = Inl e)"
  by (auto simp: upsertWorkout_unfold Let_def split: if_splits option.splits)

theorem upsertWorkout_idempotent_witness:
  "\<exists>db'. upsertWorkout sampleStore ''user1'' ''2024-03-01'' 7 8 = Inr db'
      \<and> days db' (''user1'', ''2024-03-01'') \<noteq> None
      \<and> upsertWorkout db' ''user1'' ''2024-03-01'' 9 10 = Inr db'"
proof -
  have "\<exists>db'. upsertWorkout sampleStore ''user1'' ''2024-03-01'' 7 8 = Inr db'"
    by (simp add: upsertWorkout_unfold sampleStore_def Let_def)
  then obtain db' where a: "upsertWorkout sampleStore ''user1'' ''2024-03-01'' 7 8 = Inr db'"
    by blast
  from upsertWorkout_idempotent
         [of sampleStore "''user1''" "''2024-03-01''" 7 8 9 10, THEN conjunct1, rule_format, OF a]
    a show ?thesis by blast
qed

text \<open>
  C6. When the user has no state row, or has \<open>skip_points \<le> 0\<close> (so in particular
  0), \<open>useSkip\<close> returns the store as it is: no row is inserted and no counter changes.
\<close>

theorem useSkip_without_budget:
  assumes "user_state db u = None \<or> (\<exists>st. user_state db u = Some st \<and> skip_points st \<le> 0)"
  shows "useSkip db u date now1 now2 = Inr db"
  using assms by (auto simp: useSkip_unfold)

theorem useSkip_without_budget_witness:
  "counters noStateStore ''user2'' = Some (0, 4)
   \<and> useSkip noStateStore ''user2'' ''2024-03-01'' 7 8 = Inr noStateStore
   \<and> user_state noStateStore ''user1'' = None
   \<and> useSkip noStateStore ''user1'' ''2024-03-01'' 7 8 = Inr noStateStore"
proof -
  have a: "user_state noStateStore ''user2''
             = Some \<lparr>skip_points = 0, consec_workout = 4, updated_at = 6\<rparr>"
    by (simp add: noStateStore_def)
  have b: "user_state noStateStore ''user1'' = None"
    by (simp add: noStateStore_def)
  have "useSkip noStateStore ''user2'' ''2024-03-01'' 7 8 = Inr noStateStore"
    using a by (intro useSkip_without_budget) simp
  moreover have "useSkip noStateStore ''user1'' ''2024-03-01'' 7 8 = Inr noStateStore"
    using b by (intro useSkip_without_budget) simp
  ultimately show ?thesis using a b by (simp add: counters_def)
qed

text \<open>
  C7, as the claim states it, fails: with the user row present and the state row
  missing, \<open>upsertWorkout\<close> has already inserted the row of the day when it meets the
  missing state.
\<close>

theorem upsertWorkout_missing_state_counterexample:
  "days noStateStore (''user1'', ''2024-03-01'') = None
   \<and> user_state noStateStore ''user1'' = None
   \<and> days (outcome noStateStore (upsertWorkout noStateStore ''user1'' ''2024-03-01'' 7 8))
        (''user1'', ''2024-03-01'') = Some \<lparr>status = Workout, created_at = 7\<rparr>"
  by (simp add: noStateStore_def upsertWorkout_unfold outcome_def)

text \<open>
  C7, amended. When \<open>upsertWorkout\<close> is called for a date without row and the state
  row of the user is missing: if the user row exists, the workout row of the day is
  inserted and nothing else changes (\<open>user_state\<close> and \<open>users\<close> are as before, no
  state row is created); if the user row is missing too, the insert throws on the
  foreign key and nothing is written.
\<close>

theorem upsertWorkout_missing_state:
  assumes "days db (u, date) = None" and "user_state db u = None"
  shows "(users db u \<noteq> None \<longrightarrow>
            upsertWorkout db u date now1 now2
              = Inr (db\<lparr>days := (days db)((u, date) \<mapsto> \<lparr>status = Workout, created_at = now1\<rparr>)\<rparr>))
       \<and> (users db u = None \<longrightarrow>
            upsertWorkout db u date now1 now2 = Inl ForeignKeyViolation)"
  using assms by (simp add: upsertWorkout_unfold)

theorem upsertWorkout_missing_state_witness:
  "upsertWorkout noStateStore ''user1'' ''2024-03-01'' 7 8
     = Inr (noStateStore\<lparr>days := (days noStateStore)((''user1'', ''2024-03-01'') \<mapsto>
              \<lparr>status = Workout, created_at = 7\<rparr>)\<rparr>)
   \<and> upsertWorkout noStateStore ''user3'' ''2024-03-01'' 7 8 = Inl ForeignKeyViolation"
proof -
  have a: "days noStateStore (''user1'', ''2024-03-01'') = None"
    and b: "user_state noStateStore ''user1'' = None"
    and c: "users noStateStore ''user1'' \<noteq> None"
    and d: "days noStateStore (''user3'', ''2024-03-01'') = None"
    and e: "user_state noStateStore ''user3'' = None"
    and f: "users noStateStore ''user3'' = None"
    by (simp_all add: noStateStore_def)
  from upsertWorkout_missing_state [OF a b, of 7 8] c
       upsertWorkout_missing_state [OF d e, of 7 8] f
  show ?thesis by blast
qed

text \<open>
  C8. A row of \<^verbatim>\<open>days\<close> is never changed: when a row exists for (user, date),
  \<open>upsertWorkout\<close> and \<open>useSkip\<close> for that user and date return the store as it is,
  and a call of either for any user and date leaves that row as it was. The table is
  a map from its primary key, so a key has at most one row; and neither operation ever
  runs into the primary key, that is, neither tries to insert a second row for a key.
\<close>

theorem day_record_immutable:
  assumes "days db (u, date) = Some r"
  shows "upsertWorkout db u date now1 now2 = Inr db
       \<and> useSkip db u date now1 now2 = Inr db
       \<and> (\<forall>u' d' db'. upsertWorkout db u' d' now1 now2 = Inr db'
                       \<or> useSkip db u' d' now1 now2 = Inr db'
            \<longrightarrow> days db' (u, date) = Some r)
       \<and> (\<forall>u' d'. upsertWorkout db u' d' now1 now2 \<noteq> Inl PrimaryKeyViolation
                  \<and> useSkip db u' d' now1 now2 \<noteq> Inl PrimaryKeyViolation)"
  using assms
  by (auto simp: upsertWorkout_unfold useSkip_unfold Let_def split: if_splits option.splits)

theorem day_record_immutable_witness:
  "upsertWorkout sampleStore ''user1'' ''2024-02-29'' 7 8 = Inr sampleStore
   \<and> useSkip sampleStore ''user1'' ''2024-02-29'' 7 8 = Inr sampleStore
   \<and> (\<exists>db'. useSkip sampleStore ''user2'' ''2024-03-01'' 7 8 = Inr db'
          \<and> db' \<noteq> sampleStore
          \<and> days db' (''user1'', ''2024-02-29'') = Some \<lparr>status = Workout, created_at = 5\<rparr>)"
proof -
  have a: "days sampleStore (''user1'', ''2024-02-29'')
             = Some \<lparr>status = Workout, created_at = 5\<rparr>"
    by (simp add: sampleStore_def)
  note r = day_record_immutable [OF a, of 7 8]
  have "\<exists>db'. useSkip sampleStore ''user2'' ''2024-03-01'' 7 8 = Inr db'
          \<and> days db' (''user2'', ''2024-03-01'') \<noteq> days sampleStore (''user2'', ''2024-03-01'')"
    by (simp add: useSkip_unfold sampleStore_def)
  then obtain db' where b: "useSkip sampleStore ''user2'' ''2024-03-01'' 7 8 = Inr db'"
    and c: "db' \<noteq> sampleStore"
    by auto
  from r b have "days db' (''user1'', ''2024-02-29'') = Some \<lparr>status = Workout, created_at = 5\<rparr>"
    by blast
  with r b c show ?thesis by blast
qed

text \<open>
  C9. \<open>ensureBaseUsers\<close> never throws, and on the store it returns a second call (with
  any names and at any time) changes nothing. It leaves \<^verbatim>\<open>days\<close> alone and never
  overwrites a row of \<^verbatim>\<open>users\<close> or \<^verbatim>\<open>user_state\<close> that exists. Where the two
  user rows and the two state rows exist it returns the store as it is; where the four
  are absent it creates \<open>user1\<close> and \<open>user2\<close> with the given names and state rows with
  \<open>skip_points = 2\<close> and \<open>consec_workout = 0\<close>.
\<close>

theorem ensureBaseUsers_idempotent:
  "(\<exists>db'. ensureBaseUsers db ns now = Inr db'
         \<and> ensureBaseUsers db' ns' now' = Inr db'
         \<and> days db' = days db
         \<and> (\<forall>u n. users db u = Some n \<longrightarrow> users db' u = Some n)
         \<and> (\<forall>u s. user_state db u = Some s \<longrightarrow> user_state db' u = Some s))
   \<and> (users db ''user1'' \<noteq> None \<and> users db ''user2'' \<noteq> None
        \<and> user_state db ''user1'' \<noteq> None \<and> user_state db ''user2'' \<noteq> None
      \<longrightarrow> ensureBaseUsers db ns now = Inr db)
   \<and> (users db ''user1'' = None \<and> users db ''user2'' = None
        \<and> user_state db ''user1'' = None \<and> user_state db ''user2'' = None
      \<longrightarrow> ensureBaseUsers db ns now
            = Inr (db\<lparr>users := (users db)(''user1'' \<mapsto> user1 ns, ''user2'' \<mapsto> user2 ns),
                      user_state := (user_state db)
                        (''user1'' \<mapsto> \<lparr>skip_points = 2, consec_workout = 0, updated_at = now\<rparr>,
                         ''user2'' \<mapsto> \<lparr>skip_points = 2, consec_workout = 0, updated_at = now\<rparr>)\<rparr>))"
  by (auto simp: ensureBaseUsers_def andThen_def insertOrIgnoreUser_def insertOrIgnoreState_def)

theorem ensureBaseUsers_idempotent_witness:
  "ensureBaseUsers sampleStore \<lparr>user1 = ''X'', user2 = ''Y''\<rparr> 9 = Inr sampleStore
   \<and> (\<exists>db'. ensureBaseUsers emptyStore sampleNames 3 = Inr db'
          \<and> users db' ''user1'' = Some ''A'' \<and> users db' ''user2'' = Some ''B''
          \<and> counters db' ''user1'' = Some (2, 0) \<and> counters db' ''user2'' = Some (2, 0))"
proof -
  have a: "users sampleStore ''user1'' \<noteq> None \<and> users sampleStore ''user2'' \<noteq> None
        \<and> user_state sampleStore ''user1'' \<noteq> None \<and> user_state sampleStore ''user2'' \<noteq> None"
    by (simp add: sampleStore_def)
  have b: "users emptyStore ''user1'' = None \<and> users emptyStore ''user2'' = None
        \<and> user_state emptyStore ''user1'' = None \<and> user_state emptyStore ''user2'' = None"
    by (simp add: emptyStore_def)
  from ensureBaseUsers_idempotent [of sampleStore "\<lparr>user1 = ''X'', user2 = ''Y''\<rparr>" 9] a
  have c: "ensureBaseUsers sampleStore \<lparr>user1 = ''X'', user2 = ''Y''\<rparr> 9 = Inr sampleStore"
    by blast
  from ensureBaseUsers_idempotent [of emptyStore sampleNames 3] b
  have "ensureBaseUsers emptyStore sampleNames 3
          = Inr (emptyStore\<lparr>users := (users emptyStore)
                     (''user1'' \<mapsto> user1 sampleNames, ''user2'' \<mapsto> user2 sampleNames),
                   user_state := (user_state emptyStore)
                     (''user1'' \<mapsto> \<lparr>skip_points = 2, consec_workout = 0, updated_at = 3\<rparr>,
                      ''user2'' \<mapsto> \<lparr>skip_points = 2, consec_workout = 0, updated_at = 3\<rparr>)\<rparr>)"
    by blast
  then have "\<exists>db'. ensureBaseUsers emptyStore sampleNames 3 = Inr db'
          \<and> users db' ''user1'' = Some ''A'' \<and> users db' ''user2'' = Some ''B''
          \<and> counters db' ''user1'' = Some (2, 0) \<and> counters db' ''user2'' = Some (2, 0)"
    by (simp add: sampleNames_def counters_def)
  with c show ?thesis by blast
qed

text \<open>
  C10. A call of \<open>upsertWorkout\<close> or \<open>useSkip\<close> for user \<open>u\<close> leaves the rows of every
  other user \<open>v\<close> as they were: the state row of \<open>v\<close>, every day row of \<open>v\<close>, and the
  whole \<^verbatim>\<open>users\<close> table. (A call that throws leaves the whole store as it was.)
\<close>

theorem other_user_untouched:
  assumes "v \<noteq> u"
    and "upsertWorkout db u date now1 now2 = Inr db' \<or> useSkip db u date now1 now2 = Inr db'"
  shows "users db' = users db
       \<and> user_state db' v = user_state db v
       \<and> (\<forall>d. days db' (v, d) = days db (v, d))"
  using assms
  by (auto simp: upsertWorkout_unfold useSkip_unfold Let_def split: if_splits option.splits)

theorem other_user_untouched_witness:
  "\<exists>db'. upsertWorkout sampleStore ''user1'' ''2024-03-01'' 7 8 = Inr db'
      \<and> db' \<noteq> sampleStore
      \<and> users db' = users sampleStore
      \<and> user_state db' ''user2'' = Some \<lparr>skip_points = 1, consec_workout = 3, updated_at = 6\<rparr>
      \<and> days db' (''user2'', ''2024-03-01'') = None"
proof -
  have "\<exists>db'. upsertWorkout sampleStore ''user1'' ''2024-03-01'' 7 8 = Inr db'
          \<and> days db' (''user1'', ''2024-03-01'') \<noteq> days sampleStore (''user1'', ''2024-03-01'')"
    by (simp add: upsertWorkout_unfold sampleStore_def Let_def)
  then obtain db' where a: "upsertWorkout sampleStore ''user1'' ''2024-03-01'' 7 8 = Inr db'"
    and b: "db' \<noteq> sampleStore"
    by auto
  have c: "''user2'' \<noteq> ''user1''" by simp
  from other_user_untouched [OF c disjI1, OF a]
  have "users db' = users sampleStore"
    and "user_state db' ''user2'' = user_state sampleStore ''user2''"
    and "days db' (''user2'', ''2024-03-01'') = days sampleStore (''user2'', ''2024-03-01'')"
    by blast+
  then show ?thesis using a b by (auto simp: sampleStore_def)
qed

end
